theory Spec2Isabelle
  imports Complex_Main "HOL-Library.AList" "HOL-Library.Multiset"
begin

section \<open>JavaScript numbers\<close>

text \<open>
  Every \<^verbatim>\<open>number\<close> of the program is an IEEE double. The model keeps the four kinds
  of value a double can be: a finite value, the two infinities and NaN. Finite
  values are exact rationals: rounding and overflow are not modelled, and the
  two zeros are one value. The sign of a zero is observable only through a
  division by it, and every divisor of the modelled code is an array length,
  which is never the negative zero.
\<close>

datatype jsnum = Num rat | PosInf | NegInf | NaN

fun jadd :: "jsnum \<Rightarrow> jsnum \<Rightarrow> jsnum" where
  "jadd NaN _ = NaN"
| "jadd _ NaN = NaN"
| "jadd (Num a) (Num b) = Num (a + b)"
| "jadd PosInf NegInf = NaN"
| "jadd NegInf PosInf = NaN"
| "jadd PosInf _ = PosInf"
| "jadd _ PosInf = PosInf"
| "jadd NegInf _ = NegInf"
| "jadd _ NegInf = NegInf"

fun jneg :: "jsnum \<Rightarrow> jsnum" where
  "jneg (Num a) = Num (- a)"
| "jneg PosInf = NegInf"
| "jneg NegInf = PosInf"
| "jneg NaN = NaN"

definition jsub :: "jsnum \<Rightarrow> jsnum \<Rightarrow> jsnum" where
  "jsub a b = jadd a (jneg b)"

text \<open>The infinity whose sign is the sign of a non-zero rational.\<close>

definition inf_of_sign :: "rat \<Rightarrow> jsnum" where
  "inf_of_sign a = (if a = 0 then NaN else if 0 < a then PosInf else NegInf)"

fun jmul :: "jsnum \<Rightarrow> jsnum \<Rightarrow> jsnum" where
  "jmul NaN _ = NaN"
| "jmul _ NaN = NaN"
| "jmul (Num a) (Num b) = Num (a * b)"
| "jmul (Num a) PosInf = inf_of_sign a"
| "jmul (Num a) NegInf = inf_of_sign (- a)"
| "jmul PosInf (Num b) = inf_of_sign b"
| "jmul NegInf (Num b) = inf_of_sign (- b)"
| "jmul PosInf PosInf = PosInf"
| "jmul PosInf NegInf = NegInf"
| "jmul NegInf PosInf = NegInf"
| "jmul NegInf NegInf = PosInf"

text \<open>
  Division: a finite non-zero value over zero is an infinity, zero over zero
  is NaN, a finite value over an infinity is zero.
\<close>

fun jdiv :: "jsnum \<Rightarrow> jsnum \<Rightarrow> jsnum" where
  "jdiv NaN _ = NaN"
| "jdiv _ NaN = NaN"
| "jdiv (Num a) (Num b) = (if b = 0 then inf_of_sign a else Num (a / b))"
| "jdiv (Num a) PosInf = Num 0"
| "jdiv (Num a) NegInf = Num 0"
| "jdiv PosInf (Num b) = (if 0 \<le> b then PosInf else NegInf)"
| "jdiv NegInf (Num b) = (if 0 \<le> b then NegInf else PosInf)"
| "jdiv PosInf _ = NaN"
| "jdiv NegInf _ = NaN"

text \<open>The comparison \<^verbatim>\<open>a < b\<close>: false as soon as one side is NaN.\<close>

fun jlt :: "jsnum \<Rightarrow> jsnum \<Rightarrow> bool" where
  "jlt NaN _ = False"
| "jlt _ NaN = False"
| "jlt (Num a) (Num b) = (a < b)"
| "jlt NegInf NegInf = False"
| "jlt NegInf _ = True"
| "jlt PosInf _ = False"
| "jlt (Num a) PosInf = True"
| "jlt (Num a) NegInf = False"

text \<open>\<^verbatim>\<open>Math.max(a, b)\<close>: NaN as soon as one argument is NaN.\<close>

fun jmax :: "jsnum \<Rightarrow> jsnum \<Rightarrow> jsnum" where
  "jmax NaN _ = NaN"
| "jmax _ NaN = NaN"
| "jmax a b = (if jlt a b then b else a)"

text \<open>The numbers that count as false in a condition or under \<^verbatim>\<open>||\<close>: zero and NaN.\<close>

fun falsy :: "jsnum \<Rightarrow> bool" where
  "falsy (Num a) = (a = 0)"
| "falsy NaN = True"
| "falsy _ = False"

text \<open>An array length or a counter, as a number.\<close>

definition jnat :: "nat \<Rightarrow> jsnum" where
  "jnat n = Num (of_nat n)"

text \<open>A number that is a finite value.\<close>

fun finite_num :: "jsnum \<Rightarrow> bool" where
  "finite_num (Num a) = True"
| "finite_num _ = False"

section \<open>The data model (types.ts)\<close>

datatype Position = Guard | Forward | Center | Any

record Player =
  player_id :: string
  name :: string
  jerseyNumber :: jsnum
  skillLevel :: jsnum
  position :: Position
  isPresent :: bool
  totalPlayingTime :: jsnum

record GameSettings =
  periodsCount :: jsnum
  periodDuration :: jsnum
  overtimePeriods :: jsnum
  playersOnCourt :: jsnum

text \<open>
  A lineup holds references to player objects, usually the roster's own. The
  functions modelled here read nothing of a lineup entry but its \<^verbatim>\<open>id\<close>
  and its \<^verbatim>\<open>position\<close>, and no function assigns either, so a lineup is the
  list of the players' values at the time they were put there. The lineup
  array of a period is the \<^verbatim>\<open>players\<close> array of the suggestion it was created
  from, and periods created from one suggestion share it: the record holds
  what the array contains, and the section on the coordinator keeps track of
  which periods share an array. The optional \<^verbatim>\<open>actualDuration\<close> is \<open>None\<close>
  while undefined.
\<close>

record Period =
  period_id :: string
  number :: jsnum
  lineup :: "Player list"
  isCompleted :: bool
  actualDuration :: "jsnum option"

text \<open>
  The roster and the periods are arrays of distinct objects: an object is
  named by its index, and an assignment to a field of the object that
  \<^verbatim>\<open>find\<close> returned is a list update at the index of the first match.
\<close>

record Game =
  game_id :: string
  teamId :: string
  date :: nat
  settings :: GameSettings
  roster :: "Player list"
  periods :: "Period list"
  isActive :: bool

text \<open>\<^verbatim>\<open>Array.prototype.findIndex\<close>, with \<open>None\<close> for \<^verbatim>\<open>-1\<close>.\<close>

fun findIndex :: "('a \<Rightarrow> bool) \<Rightarrow> 'a list \<Rightarrow> nat option" where
  "findIndex P [] = None"
| "findIndex P (x # xs) = (if P x then Some 0 else map_option Suc (findIndex P xs))"

lemma findIndex_Some:
  "findIndex P xs = Some i \<Longrightarrow> i < length xs \<and> P (xs ! i) \<and> (\<forall>j<i. \<not> P (xs ! j))"
proof (induction xs arbitrary: i)
  case Nil
  then show ?case by simp
next
  case (Cons x xs)
  show ?case
  proof (cases "P x")
    case True
    with Cons.prems show ?thesis by simp
  next
    case False
    with Cons.prems obtain j where j: "findIndex P xs = Some j" "i = Suc j"
      by auto
    from Cons.IH [OF j(1)] False j(2) show ?thesis
      by (auto simp: nth_Cons split: nat.splits)
  qed
qed

lemma findIndex_None: "findIndex P xs = None \<longleftrightarrow> (\<forall>x\<in>set xs. \<not> P x)"
  by (induction xs) auto

section \<open>GameManager (gameManager.ts)\<close>

subsection \<open>completePeriod\<close>

text \<open>
  The body of the \<^verbatim>\<open>forEach\<close> of \<^verbatim>\<open>completePeriod\<close>: the first roster player
  with the id of the lineup entry, if there is one, gets the duration added.
\<close>

definition creditPlayer :: "jsnum \<Rightarrow> Player list \<Rightarrow> Player \<Rightarrow> Player list" where
  "creditPlayer d ros player =
     (case findIndex (\<lambda>p. player_id p = player_id player) ros of
        None \<Rightarrow> ros
      | Some i \<Rightarrow> ros[i := (ros ! i)\<lparr>totalPlayingTime := jadd (totalPlayingTime (ros ! i)) d\<rparr>])"

text \<open>
  \<^verbatim>\<open>actualDuration || this.game.settings.periodDuration\<close>: the default is taken
  when the argument is omitted and also when it is zero or NaN.
\<close>

definition durationOrDefault :: "jsnum option \<Rightarrow> jsnum \<Rightarrow> jsnum" where
  "durationOrDefault actual dflt =
     (case actual of None \<Rightarrow> dflt | Some v \<Rightarrow> if falsy v then dflt else v)"

definition completePeriod :: "Game \<Rightarrow> string \<Rightarrow> jsnum option \<Rightarrow> Game" where
  "completePeriod g periodId actual =
     (case findIndex (\<lambda>p. period_id p = periodId) (periods g) of
        None \<Rightarrow> g
      | Some k \<Rightarrow>
          let period = periods g ! k;
              d = durationOrDefault actual (periodDuration (settings g));
              period' = period\<lparr>isCompleted := True, actualDuration := Some d\<rparr>
          in g\<lparr>periods := (periods g)[k := period'],
                roster := foldl (creditPlayer d) (roster g) (lineup period)\<rparr>)"

subsection \<open>markPlayerPresent and addLatePlayer\<close>

definition markPlayerPresent :: "Game \<Rightarrow> string \<Rightarrow> bool \<Rightarrow> Game" where
  "markPlayerPresent g playerId present =
     (case findIndex (\<lambda>p. player_id p = playerId) (roster g) of
        None \<Rightarrow> g
      | Some i \<Rightarrow> g\<lparr>roster := (roster g)[i := (roster g ! i)\<lparr>isPresent := present\<rparr>]\<rparr>)"

text \<open>
  \<^verbatim>\<open>calculateCatchUpTime(player)\<close>, the player being the roster object at index
  \<open>i\<close>. The constant \<^verbatim>\<open>0.7\<close> is the rational 7/10.
\<close>

definition calculateCatchUpTime :: "Game \<Rightarrow> nat \<Rightarrow> Game" where
  "calculateCatchUpTime g i =
     (let completedPeriods = length (filter isCompleted (periods g)) in
      if completedPeriods = 0 then g
      else
        let presentPlayers = length (filter isPresent (roster g));
            averageTimePerPeriod =
              jdiv (jmul (periodDuration (settings g)) (playersOnCourt (settings g)))
                   (jnat presentPlayers);
            expectedTime = jmul averageTimePerPeriod (jnat completedPeriods)
        in g\<lparr>roster := (roster g)[i := (roster g ! i)
               \<lparr>totalPlayingTime := jmax (Num 0) (jmul expectedTime (Num (7 / 10)))\<rparr>]\<rparr>)"

definition addLatePlayer :: "Game \<Rightarrow> string \<Rightarrow> Game" where
  "addLatePlayer g playerId =
     (case findIndex (\<lambda>p. player_id p = playerId) (roster g) of
        None \<Rightarrow> g
      | Some i \<Rightarrow>
          calculateCatchUpTime
            (g\<lparr>roster := (roster g)[i := (roster g ! i)\<lparr>isPresent := True\<rparr>]\<rparr>) i)"

subsection \<open>swapPlayers\<close>

text \<open>
  The result is the returned boolean and the game after the call, as far as
  the period found by the id goes. Periods that share the lineup array of that
  period are dealt with by \<open>swapPlayersInPlace\<close> below.
\<close>

definition swapPlayers :: "Game \<Rightarrow> string \<Rightarrow> string \<Rightarrow> string \<Rightarrow> bool \<times> Game" where
  "swapPlayers g periodId playerOutId playerInId =
     (case findIndex (\<lambda>p. period_id p = periodId) (periods g) of
        None \<Rightarrow> (False, g)
      | Some k \<Rightarrow>
          let period = periods g ! k in
          if isCompleted period then (False, g)
          else
            (case (findIndex (\<lambda>p. player_id p = playerOutId) (lineup period),
                   find (\<lambda>p. player_id p = playerInId \<and> isPresent p) (roster g)) of
               (Some playerOutIndex, Some playerIn) \<Rightarrow>
                 if list_ex (\<lambda>p. player_id p = playerInId) (lineup period) then (False, g)
                 else (True, g\<lparr>periods := (periods g)
                         [k := period\<lparr>lineup := (lineup period)[playerOutIndex := playerIn]\<rparr>]\<rparr>)
             | _ \<Rightarrow> (False, g)))"

subsection \<open>getPlayingTimeReport\<close>

text \<open>
  \<^verbatim>\<open>Array.prototype.sort\<close> with a comparator. The sort is stable, and for a
  consistent comparator its result is the one stable sorted order, which
  insertion from the right computes: an element moves past those the
  comparator puts strictly before it (\<^verbatim>\<open>cmp(x, y) > 0\<close>). For a comparator that
  is not consistent (NaN among the keys) the language leaves the order to the
  implementation; the result is a permutation of the array in every case.
\<close>

fun insertBy :: "('a \<Rightarrow> 'a \<Rightarrow> jsnum) \<Rightarrow> 'a \<Rightarrow> 'a list \<Rightarrow> 'a list" where
  "insertBy cmp x [] = [x]"
| "insertBy cmp x (y # ys) =
     (if jlt (Num 0) (cmp x y) then y # insertBy cmp x ys else x # y # ys)"

definition sortBy :: "('a \<Rightarrow> 'a \<Rightarrow> jsnum) \<Rightarrow> 'a list \<Rightarrow> 'a list" where
  "sortBy cmp xs = foldr (insertBy cmp) xs []"

record ReportEntry =
  player :: Player
  minutes :: jsnum
  target :: jsnum
  difference :: jsnum

definition targetTimePerPlayer :: "Game \<Rightarrow> jsnum" where
  "targetTimePerPlayer g =
     (let totalGameTime = jmul (periodsCount (settings g)) (periodDuration (settings g));
          presentPlayers = length (filter isPresent (roster g));
          playersPerPeriod = playersOnCourt (settings g)
      in jdiv (jmul totalGameTime playersPerPeriod) (jnat presentPlayers))"

definition reportEntry :: "jsnum \<Rightarrow> Player \<Rightarrow> ReportEntry" where
  "reportEntry t p =
     \<lparr>player = p, minutes = totalPlayingTime p, target = t,
      difference = jsub (totalPlayingTime p) t\<rparr>"

definition getPlayingTimeReport :: "Game \<Rightarrow> ReportEntry list" where
  "getPlayingTimeReport g =
     sortBy (\<lambda>a b. jsub (difference a) (difference b))
       (map (reportEntry (targetTimePerPlayer g)) (filter isPresent (roster g)))"


text \<open>The comparison \<^verbatim>\<open>a <= b\<close>, for stating that a report is in ascending order.\<close>

fun jle :: "jsnum \<Rightarrow> jsnum \<Rightarrow> bool" where
  "jle NaN _ = False"
| "jle _ NaN = False"
| "jle (Num a) (Num b) = (a \<le> b)"
| "jle NegInf _ = True"
| "jle _ PosInf = True"
| "jle _ _ = False"

text \<open>The rational a finite number stands for.\<close>

fun num_val :: "jsnum \<Rightarrow> rat" where
  "num_val (Num a) = a"
| "num_val _ = 0"

section \<open>StrictLineupGenerator (strictLineupGenerator.ts)\<close>

text \<open>
  The generator is constructed from the roster, the settings and the periods
  of the game; its \<^verbatim>\<open>players\<close> are the present players of the roster, in roster
  order.
\<close>

subsection \<open>calculatePeriodCounts\<close>

text \<open>
  A \<^verbatim>\<open>Map<string, number>\<close> is the list of its entries in insertion order:
  \<^verbatim>\<open>set\<close> overwrites the value of a key that is there and appends a new key,
  which is \<^const>\<open>AList.update\<close>. The values are counters, natural numbers.
  \<^verbatim>\<open>counts.get(id) || 0\<close> is \<open>getOrZero\<close>.
\<close>

definition getOrZero :: "(string \<times> nat) list \<Rightarrow> string \<Rightarrow> nat" where
  "getOrZero counts k = (case map_of counts k of None \<Rightarrow> 0 | Some n \<Rightarrow> n)"

definition countPlayer :: "(string \<times> nat) list \<Rightarrow> Player \<Rightarrow> (string \<times> nat) list" where
  "countPlayer counts p =
     AList.update (player_id p) (getOrZero counts (player_id p) + 1) counts"

definition calculatePeriodCounts :: "Player list \<Rightarrow> Period list \<Rightarrow> (string \<times> nat) list" where
  "calculatePeriodCounts present existingPeriods =
     foldl (\<lambda>counts period.
              if isCompleted period then foldl countPlayer counts (lineup period) else counts)
       (foldl (\<lambda>counts p. AList.update (player_id p) 0 counts) [] present)
       existingPeriods"

subsection \<open>generateStrictRotationLineup\<close>

text \<open>\<^verbatim>\<open>Math.min\<close> and \<^verbatim>\<open>Math.max\<close> of a spread array of counters.\<close>

definition mathMin :: "nat list \<Rightarrow> jsnum" where
  "mathMin xs = (case xs of [] \<Rightarrow> PosInf | x # r \<Rightarrow> jnat (fold min r x))"

definition mathMax :: "nat list \<Rightarrow> jsnum" where
  "mathMax xs = (case xs of [] \<Rightarrow> NegInf | x # r \<Rightarrow> jnat (fold max r x))"

text \<open>The comparator of the initial sort.\<close>

definition compareRotation :: "(string \<times> nat) list \<Rightarrow> Player \<Rightarrow> Player \<Rightarrow> jsnum" where
  "compareRotation counts a b =
     (let aCount = getOrZero counts (player_id a);
          bCount = getOrZero counts (player_id b)
      in if aCount \<noteq> bCount then jsub (jnat aCount) (jnat bCount)
         else jsub (skillLevel b) (skillLevel a))"

text \<open>
  The one exception the generator can raise: \<^verbatim>\<open>reduce\<close> of an empty array
  without an initial value.
\<close>

datatype js_error = TypeError

definition selectBestFromTied :: "Player list \<Rightarrow> Player list \<Rightarrow> js_error + Player" where
  "selectBestFromTied tiedPlayers currentLineup =
     (let currentPositions = map position currentLineup in
      case find (\<lambda>p. position p \<noteq> Any \<and> position p \<notin> set currentPositions) tiedPlayers of
        Some p \<Rightarrow> Inr p
      | None \<Rightarrow>
          (case tiedPlayers of
             [] \<Rightarrow> Inl TypeError
           | first # others \<Rightarrow>
               Inr (foldl (\<lambda>best current.
                             if jlt (skillLevel best) (skillLevel current) then current else best)
                      first others)))"

text \<open>
  \<^verbatim>\<open>available.indexOf(selectedPlayer)\<close> compares object identities. Every
  selection rule takes the first player of \<^verbatim>\<open>available\<close> that satisfies a
  condition on the player's fields, so the selected object is the first of
  \<^verbatim>\<open>available\<close> with its field values, and the search by value finds the same
  index. \<^verbatim>\<open>splice(i, 1)\<close> removes the element at \<open>i\<close>, and the last element when
  \<open>i\<close> is \<^verbatim>\<open>-1\<close>.
\<close>

definition indexOf :: "'a \<Rightarrow> 'a list \<Rightarrow> nat option" where
  "indexOf x xs = findIndex (\<lambda>y. y = x) xs"

definition spliceOne :: "nat option \<Rightarrow> 'a list \<Rightarrow> 'a list" where
  "spliceOne i xs = (case i of None \<Rightarrow> butlast xs | Some k \<Rightarrow> take k xs @ drop (Suc k) xs)"

definition selectNext :: "(string \<times> nat) list \<Rightarrow> Player list \<Rightarrow> Player list \<Rightarrow> js_error + Player" where
  "selectNext counts lineup_so_far available =
     (let minPeriods = mathMin (map (\<lambda>p. getOrZero counts (player_id p)) available);
          minPlayers = filter (\<lambda>p. jnat (getOrZero counts (player_id p)) = minPeriods) available
      in case minPlayers of
           [p] \<Rightarrow> Inr p
         | _ \<Rightarrow> selectBestFromTied minPlayers lineup_so_far)"

lemma length_spliceOne:
  "xs \<noteq> [] \<Longrightarrow> length (spliceOne (indexOf x xs) xs) < length xs"
proof (cases "indexOf x xs")
  case None
  assume "xs \<noteq> []"
  with None show ?thesis by (simp add: spliceOne_def)
next
  case (Some k)
  then have "k < length xs"
    unfolding indexOf_def by (auto dest: findIndex_Some)
  with Some show ?thesis by (simp add: spliceOne_def)
qed

function rotationLoop ::
  "jsnum \<Rightarrow> (string \<times> nat) list \<Rightarrow> Player list \<Rightarrow> Player list \<Rightarrow> js_error + Player list" where
  "rotationLoop onCourt counts lineup_so_far available =
     (if jlt (jnat (length lineup_so_far)) onCourt \<and> available \<noteq> [] then
        (case selectNext counts lineup_so_far available of
           Inl e \<Rightarrow> Inl e
         | Inr selectedPlayer \<Rightarrow>
             rotationLoop onCourt counts (lineup_so_far @ [selectedPlayer])
               (spliceOne (indexOf selectedPlayer available) available))
      else Inr lineup_so_far)"
  by pat_completeness auto
termination
  by (relation "measure (\<lambda>(onCourt, counts, lineup_so_far, available). length available)")
     (auto simp: length_spliceOne)

declare rotationLoop.simps [simp del]

definition generateStrictRotationLineup ::
  "Player list \<Rightarrow> GameSettings \<Rightarrow> (string \<times> nat) list \<Rightarrow> js_error + Player list" where
  "generateStrictRotationLineup present st periodCounts =
     (let sortedPlayers = sortBy (compareRotation periodCounts) present
      in rotationLoop (playersOnCourt st) periodCounts [] sortedPlayers)"

subsection \<open>The balance figures and generateOptimalLineup\<close>

definition calculateRotationBalance :: "(string \<times> nat) list \<Rightarrow> Player list \<Rightarrow> jsnum" where
  "calculateRotationBalance periodCounts proposedLineup =
     (let projectedCounts = foldl countPlayer periodCounts proposedLineup;
          counts = map snd projectedCounts;
          minCount = mathMin counts;
          maxCount = mathMax counts;
          spread = jsub maxCount minCount
      in jmax (Num 0) (jsub (Num 1) (jmul spread (Num (33 / 100)))))"

text \<open>
  The size of the \<^verbatim>\<open>Set\<close> of the positions other than \<^verbatim>\<open>'Any'\<close> is the length
  of the list without repetitions. The same function, word for word, is in
  lineupGenerator.ts.
\<close>

definition calculatePositionBalance :: "Player list \<Rightarrow> jsnum" where
  "calculatePositionBalance lineup_players =
     (let positions = map position lineup_players;
          uniquePositions = length (remdups (filter (\<lambda>p. p \<noteq> Any) positions));
          maxPossiblePositions = min 3 (length lineup_players)
      in jdiv (jnat uniquePositions) (jnat maxPossiblePositions))"

record LineupSuggestion =
  players :: "Player list"
  averageSkillLevel :: jsnum
  playingTimeBalance :: jsnum
  positionBalance :: jsnum

definition generateOptimalLineup ::
  "Player list \<Rightarrow> GameSettings \<Rightarrow> Period list \<Rightarrow> js_error + LineupSuggestion" where
  "generateOptimalLineup ros st existingPeriods =
     (let present = filter isPresent ros;
          periodCounts = calculatePeriodCounts present existingPeriods
      in case generateStrictRotationLineup present st periodCounts of
           Inl e \<Rightarrow> Inl e
         | Inr chosen \<Rightarrow>
             Inr \<lparr>players = chosen,
                  averageSkillLevel =
                    jdiv (foldl (\<lambda>total p. jadd total (skillLevel p)) (Num 0) chosen)
                         (jnat (length chosen)),
                  playingTimeBalance = calculateRotationBalance periodCounts chosen,
                  positionBalance = calculatePositionBalance chosen\<rparr>)"

section \<open>GameManager: the next lineup and the settings\<close>

definition generateNextLineup :: "Game \<Rightarrow> js_error + LineupSuggestion" where
  "generateNextLineup g = generateOptimalLineup (roster g) (settings g) (periods g)"

text \<open>
  The decimal digits of a natural number, as the template literal of
  \<^verbatim>\<open>createPeriodFromSuggestion\<close> prints it.
\<close>

function decimal :: "nat \<Rightarrow> string" where
  "decimal n =
     (if n < 10 then [''0123456789'' ! n]
      else decimal (n div 10) @ [''0123456789'' ! (n mod 10)])"
  by pat_completeness auto
termination
  by (relation "measure (\<lambda>n. n)") auto

declare decimal.simps [simp del]

text \<open>
  A \<^verbatim>\<open>Partial<GameSettings>\<close> has each field or not; the spread keeps the
  fields it does not have.
\<close>

record PartialGameSettings =
  newPeriodsCount :: "jsnum option"
  newPeriodDuration :: "jsnum option"
  newOvertimePeriods :: "jsnum option"
  newPlayersOnCourt :: "jsnum option"

definition updateGameSettings :: "Game \<Rightarrow> PartialGameSettings \<Rightarrow> Game" where
  "updateGameSettings g newSettings =
     g\<lparr>settings :=
         \<lparr>periodsCount = (case newPeriodsCount newSettings of
                             None \<Rightarrow> periodsCount (settings g) | Some v \<Rightarrow> v),
          periodDuration = (case newPeriodDuration newSettings of
                             None \<Rightarrow> periodDuration (settings g) | Some v \<Rightarrow> v),
          overtimePeriods = (case newOvertimePeriods newSettings of
                             None \<Rightarrow> overtimePeriods (settings g) | Some v \<Rightarrow> v),
          playersOnCourt = (case newPlayersOnCourt newSettings of
                             None \<Rightarrow> playersOnCourt (settings g) | Some v \<Rightarrow> v)\<rparr>\<rparr>"

section \<open>Periods played, as the specification counts them\<close>

text \<open>
  The number of completed periods of the history whose lineup contains the
  player, a player being in a lineup when an entry has the player's id.
\<close>

definition periodsPlayed :: "Period list \<Rightarrow> Player \<Rightarrow> nat" where
  "periodsPlayed history p =
     length (filter (\<lambda>per. isCompleted per \<and> player_id p \<in> player_id ` set (lineup per))
               history)"

section \<open>The coordinator and its lineup arrays\<close>

text \<open>
  \<^verbatim>\<open>createPeriodFromSuggestion\<close> makes \<^verbatim>\<open>suggestion.players\<close> the lineup of the new
  period: the array itself, not a copy. \<^verbatim>\<open>swapPlayers\<close> assigns into that
  array. Periods created from one suggestion therefore share their lineup, and
  a swap in one of them shows in the others, completed or not. To follow this
  the state of the coordinator holds, next to the game, the address of the
  lineup array of every period, in the order of the periods; periods with the
  same address are kept with the same lineup. No other array is ever written:
  not the roster, and not a lineup that is the roster array, since
  \<^verbatim>\<open>swapPlayers\<close> then finds the incoming player in the lineup and fails.
\<close>

record Coordinator =
  game :: Game
  lineupArrays :: "nat list"

text \<open>
  What the array at an address holds: when it is the lineup of a period,
  that lineup; otherwise what its owner put there.
\<close>

definition arrayContent :: "Coordinator \<Rightarrow> nat \<Rightarrow> Player list \<Rightarrow> Player list" where
  "arrayContent c address fresh =
     (case findIndex (\<lambda>a. a = address) (lineupArrays c) of
        None \<Rightarrow> fresh
      | Some j \<Rightarrow> lineup (periods (game c) ! j))"

text \<open>
  The suggestion is given by the address of its \<^verbatim>\<open>players\<close> array and by its
  fields as the caller built them. The result is the new period together with
  the address of its lineup, which is the address of \<^verbatim>\<open>suggestion.players\<close>.
\<close>

definition createPeriodFromSuggestion ::
  "Coordinator \<Rightarrow> nat \<Rightarrow> LineupSuggestion \<Rightarrow> Period \<times> nat" where
  "createPeriodFromSuggestion c playersAddress suggestion =
     (let nextPeriodNumber = length (periods (game c)) + 1
      in (\<lparr>period_id = ''period-'' @ decimal nextPeriodNumber,
           number = jnat nextPeriodNumber,
           lineup = arrayContent c playersAddress (players suggestion),
           isCompleted = False,
           actualDuration = None\<rparr>,
          playersAddress))"

text \<open>
  \<^verbatim>\<open>createPeriodFromSuggestion\<close> only builds the period. It enters the game
  through the caller, \<^verbatim>\<open>handleStartPeriod\<close> of App.tsx, which appends it to the
  periods.
\<close>

definition handleStartPeriod :: "Coordinator \<Rightarrow> Period \<times> nat \<Rightarrow> Coordinator" where
  "handleStartPeriod c created =
     c\<lparr>game := (game c)\<lparr>periods := periods (game c) @ [fst created]\<rparr>,
       lineupArrays := lineupArrays c @ [snd created]\<rparr>"

text \<open>
  \<^verbatim>\<open>swapPlayers\<close> on the coordinator: the assignment
  \<^verbatim>\<open>period.lineup[playerOutIndex] = playerIn\<close> changes the array, so every period
  whose lineup is at the same address has the new lineup.
\<close>

definition shareLineup :: "nat list \<Rightarrow> nat \<Rightarrow> Period list \<Rightarrow> Period list" where
  "shareLineup addresses k history =
     map (\<lambda>(a, per). if a = addresses ! k then per\<lparr>lineup := lineup (history ! k)\<rparr> else per)
       (zip addresses history)"

definition swapPlayersInPlace ::
  "Coordinator \<Rightarrow> string \<Rightarrow> string \<Rightarrow> string \<Rightarrow> bool \<times> Coordinator" where
  "swapPlayersInPlace c periodId playerOutId playerInId =
     (let swapped = swapPlayers (game c) periodId playerOutId playerInId in
      case findIndex (\<lambda>p. period_id p = periodId) (periods (game c)) of
        None \<Rightarrow> (fst swapped, c\<lparr>game := snd swapped\<rparr>)
      | Some k \<Rightarrow>
          if fst swapped
          then (True, c\<lparr>game := (snd swapped)
                        \<lparr>periods := shareLineup (lineupArrays c) k (periods (snd swapped))\<rparr>\<rparr>)
          else (False, c\<lparr>game := snd swapped\<rparr>))"

section \<open>Sequences of coordinator operations\<close>

text \<open>
  The operations a caller can apply. \<^verbatim>\<open>createPeriodFromSuggestion\<close> stands for
  the call together with \<^verbatim>\<open>handleStartPeriod\<close>, which puts the new period into
  the game; \<^verbatim>\<open>swapPlayers\<close> for the state after the call, whatever it returned.
\<close>

datatype Operation =
    MarkPlayerPresent string bool
  | AddLatePlayer string
  | CreatePeriodFromSuggestion nat LineupSuggestion
  | CompletePeriod string "jsnum option"
  | SwapPlayers string string string
  | UpdateGameSettings PartialGameSettings

fun applyOperation :: "Coordinator \<Rightarrow> Operation \<Rightarrow> Coordinator" where
  "applyOperation c (MarkPlayerPresent playerId present) =
     c\<lparr>game := markPlayerPresent (game c) playerId present\<rparr>"
| "applyOperation c (AddLatePlayer playerId) = c\<lparr>game := addLatePlayer (game c) playerId\<rparr>"
| "applyOperation c (CreatePeriodFromSuggestion playersAddress suggestion) =
     handleStartPeriod c (createPeriodFromSuggestion c playersAddress suggestion)"
| "applyOperation c (CompletePeriod periodId actual) =
     c\<lparr>game := completePeriod (game c) periodId actual\<rparr>"
| "applyOperation c (SwapPlayers periodId playerOutId playerInId) =
     snd (swapPlayersInPlace c periodId playerOutId playerInId)"
| "applyOperation c (UpdateGameSettings newSettings) =
     c\<lparr>game := updateGameSettings (game c) newSettings\<rparr>"

definition runOperations :: "Coordinator \<Rightarrow> Operation list \<Rightarrow> Coordinator" where
  "runOperations c ops = foldl applyOperation c ops"

text \<open>An initial game: no period yet, and nobody has played.\<close>

definition initialGame :: "Coordinator \<Rightarrow> bool" where
  "initialGame c \<longleftrightarrow>
     periods (game c) = [] \<and> lineupArrays c = []
   \<and> list_all (\<lambda>p. totalPlayingTime p = Num 0) (roster (game c))"

text \<open>
  The minutes the periods account for: the \<^verbatim>\<open>actualDuration\<close> of the completed
  periods whose lineup has an entry with the player's id, added one after the
  other to 0 in the order of the periods. An undefined duration adds up to
  NaN, as it does in the program's arithmetic.
\<close>

definition jsum :: "jsnum list \<Rightarrow> jsnum" where
  "jsum xs = foldl jadd (Num 0) xs"

definition durationOf :: "Period \<Rightarrow> jsnum" where
  "durationOf per = (case actualDuration per of None \<Rightarrow> NaN | Some d \<Rightarrow> d)"

definition accruedMinutes :: "Period list \<Rightarrow> string \<Rightarrow> jsnum" where
  "accruedMinutes history playerId =
     jsum (map durationOf
             (filter (\<lambda>per. isCompleted per \<and> playerId \<in> player_id ` set (lineup per))
                history))"

definition timeMatchesPeriods :: "Game \<Rightarrow> bool" where
  "timeMatchesPeriods g \<longleftrightarrow>
     list_all (\<lambda>p. totalPlayingTime p = accruedMinutes (periods g) (player_id p)) (roster g)"

text \<open>
  The operations under which the minutes stay in step with the periods: a
  late player is added only while no period is completed; a committed
  suggestion repeats no player, and its \<^verbatim>\<open>players\<close> array is not yet the lineup of
  a period; a period is completed only once, and in the order of the periods,
  that is while no period after it is completed.
\<close>

fun inStep :: "Coordinator \<Rightarrow> Operation \<Rightarrow> bool" where
  "inStep c (AddLatePlayer playerId) = (filter isCompleted (periods (game c)) = [])"
| "inStep c (CreatePeriodFromSuggestion playersAddress suggestion) =
     (playersAddress \<notin> set (lineupArrays c)
      \<and> distinct (map player_id (players suggestion)))"
| "inStep c (CompletePeriod periodId actual) =
     (case findIndex (\<lambda>p. period_id p = periodId) (periods (game c)) of
        None \<Rightarrow> True
      | Some k \<Rightarrow> list_all (\<lambda>per. \<not> isCompleted per) (drop k (periods (game c))))"
| "inStep c _ = True"

fun allInStep :: "Coordinator \<Rightarrow> Operation list \<Rightarrow> bool" where
  "allInStep c [] = True"
| "allInStep c (operation # ops) =
     (inStep c operation \<and> allInStep (applyOperation c operation) ops)"

text \<open>
  What the proof carries along with the equation: the roster has no id twice,
  no lineup has, and every period has a lineup array of its own.
\<close>

definition coherent :: "Game \<Rightarrow> bool" where
  "coherent g \<longleftrightarrow>
     distinct (map player_id (roster g))
   \<and> list_all (\<lambda>per. distinct (map player_id (lineup per))) (periods g)
   \<and> timeMatchesPeriods g"

definition unshared :: "Coordinator \<Rightarrow> bool" where
  "unshared c \<longleftrightarrow>
     coherent (game c)
   \<and> length (lineupArrays c) = length (periods (game c))
   \<and> distinct (lineupArrays c)"

section \<open>Concrete states\<close>

definition mkPlayer :: "string \<Rightarrow> jsnum \<Rightarrow> Position \<Rightarrow> bool \<Rightarrow> jsnum \<Rightarrow> Player" where
  "mkPlayer i skill pos present played =
     \<lparr>player_id = i, name = i, jerseyNumber = Num 0, skillLevel = skill,
      position = pos, isPresent = present, totalPlayingTime = played\<rparr>"

definition defaultGameSettings :: GameSettings where
  "defaultGameSettings =
     \<lparr>periodsCount = Num 8, periodDuration = Num 4, overtimePeriods = Num 2,
      playersOnCourt = Num 5\<rparr>"

definition alex :: Player where
  "alex = mkPlayer ''1'' (Num 4) Guard True (Num 0)"

definition marcus :: Player where
  "marcus = mkPlayer ''2'' (Num 5) Forward True (Num 0)"

definition period1 :: Period where
  "period1 = \<lparr>period_id = ''period-1'', number = Num 1, lineup = [alex],
              isCompleted = False, actualDuration = None\<rparr>"

definition game1 :: Game where
  "game1 = \<lparr>game_id = ''game-1'', teamId = ''team-1'', date = 0,
            settings = defaultGameSettings,
            roster = [alex, marcus], periods = [period1], isActive = True\<rparr>"

definition playerA :: Player where "playerA = mkPlayer ''A'' (Num 3) Guard True (Num 0)"
definition playerB :: Player where "playerB = mkPlayer ''B'' (Num 3) Guard True (Num 0)"
definition playerC :: Player where "playerC = mkPlayer ''C'' (Num 3) Forward True (Num 0)"
definition playerD :: Player where "playerD = mkPlayer ''D'' (Num 3) Forward True (Num 0)"
definition playerE :: Player where "playerE = mkPlayer ''E'' (Num 3) Center True (Num 0)"
definition playerF :: Player where "playerF = mkPlayer ''F'' (Num 3) Any True (Num 0)"

definition swapGame :: Game where
  "swapGame = \<lparr>game_id = ''game-1'', teamId = ''team-1'', date = 0,
     settings = defaultGameSettings,
     roster = [playerA, playerB, playerC, playerD, playerE, playerF],
     periods = [\<lparr>period_id = ''period-1'', number = Num 1,
                 lineup = [playerA, playerB, playerC, playerD, playerE],
                 isCompleted = False, actualDuration = None\<rparr>],
     isActive = True\<rparr>"

definition reportGame :: Game where
  "reportGame = \<lparr>game_id = ''game-1'', teamId = ''team-1'', date = 0,
     settings = \<lparr>periodsCount = Num 9, periodDuration = Num 2, overtimePeriods = Num 0,
                 playersOnCourt = Num 1\<rparr>,
     roster = [mkPlayer ''P1'' (Num 3) Guard True (Num 4),
               mkPlayer ''P2'' (Num 3) Forward True (Num 8),
               mkPlayer ''P3'' (Num 3) Center True (Num 2),
               mkPlayer ''P4'' (Num 3) Any False (Num 0)],
     periods = [], isActive = True\<rparr>"

definition absentGame :: Game where
  "absentGame = \<lparr>game_id = ''game-1'', teamId = ''team-1'', date = 0,
     settings = defaultGameSettings,
     roster = [mkPlayer ''1'' (Num 4) Guard False (Num 0),
               mkPlayer ''2'' (Num 5) Forward False (Num 0)],
     periods = [], isActive = False\<rparr>"




definition p1 :: Player where "p1 = mkPlayer ''P1'' (Num 3) Guard True (Num 0)"
definition p2 :: Player where "p2 = mkPlayer ''P2'' (Num 3) Forward True (Num 0)"
definition p3 :: Player where "p3 = mkPlayer ''P3'' (Num 3) Center True (Num 4)"
definition p4 :: Player where "p4 = mkPlayer ''P4'' (Num 3) Guard True (Num 4)"
definition p5 :: Player where "p5 = mkPlayer ''P5'' (Num 3) Forward True (Num 8)"
definition p6 :: Player where "p6 = mkPlayer ''P6'' (Num 4) Center True (Num 8)"

definition sixHistory :: "Period list" where
  "sixHistory =
     [\<lparr>period_id = ''period-1'', number = Num 1, lineup = [p3, p4, p5, p6],
       isCompleted = True, actualDuration = Some (Num 4)\<rparr>,
      \<lparr>period_id = ''period-2'', number = Num 2, lineup = [p5, p6],
       isCompleted = True, actualDuration = Some (Num 4)\<rparr>]"

definition lateStart :: Coordinator where
  "lateStart = \<lparr>game = \<lparr>game_id = ''game-1'', teamId = ''team-1'', date = 0,
                         settings = defaultGameSettings,
                         roster = [alex, marcus\<lparr>isPresent := False\<rparr>],
                         periods = [], isActive = True\<rparr>,
                lineupArrays = []\<rparr>"

definition alexAlone :: LineupSuggestion where
  "alexAlone = \<lparr>players = [alex], averageSkillLevel = Num 4, playingTimeBalance = Num 1,
                positionBalance = Num 1\<rparr>"

definition bothPlayers :: LineupSuggestion where
  "bothPlayers = \<lparr>players = [marcus, alex], averageSkillLevel = Num (9 / 2),
                  playingTimeBalance = Num 1, positionBalance = Num 1\<rparr>"

definition lateArrival :: "Operation list" where
  "lateArrival =
     [CreatePeriodFromSuggestion 1 alexAlone,
      CompletePeriod ''period-1'' None,
      AddLatePlayer ''2'']"

definition eveningGame :: "Operation list" where
  "eveningGame =
     [AddLatePlayer ''2'',
      CreatePeriodFromSuggestion 1 alexAlone,
      SwapPlayers ''period-1'' ''1'' ''2'',
      CompletePeriod ''period-1'' (Some (Num 3)),
      UpdateGameSettings \<lparr>newPeriodsCount = None, newPeriodDuration = Some (Num 6),
                           newOvertimePeriods = None, newPlayersOnCourt = None\<rparr>,
      CreatePeriodFromSuggestion 2 bothPlayers,
      MarkPlayerPresent ''1'' False,
      CompletePeriod ''period-2'' None]"

definition bothPresent :: Coordinator where
  "bothPresent = \<lparr>game = \<lparr>game_id = ''game-1'', teamId = ''team-1'', date = 0,
                           settings = defaultGameSettings,
                           roster = [alex, marcus],
                           periods = [], isActive = True\<rparr>,
                  lineupArrays = []\<rparr>"

definition committedTwice :: "Operation list" where
  "committedTwice =
     [CreatePeriodFromSuggestion 1 alexAlone,
      CompletePeriod ''period-1'' None,
      CreatePeriodFromSuggestion 1 alexAlone,
      SwapPlayers ''period-2'' ''1'' ''2'']"

section \<open>Facts about the helpers\<close>

lemma creditPlayer_ids: "map player_id (creditPlayer d ros p) = map player_id ros"
  by (auto simp: creditPlayer_def map_update list_update_same_conv
      dest: findIndex_Some split: option.splits)

lemma creditPlayer_distinct:
  assumes "distinct (map player_id ros)"
  shows "creditPlayer d ros p =
         map (\<lambda>r. if player_id r = player_id p
                   then r\<lparr>totalPlayingTime := jadd (totalPlayingTime r) d\<rparr> else r) ros"
proof (cases "findIndex (\<lambda>q. player_id q = player_id p) ros")
  case None
  then have "\<forall>r\<in>set ros. player_id r \<noteq> player_id p"
    by (simp add: findIndex_None)
  then have "map (\<lambda>r. if player_id r = player_id p
                   then r\<lparr>totalPlayingTime := jadd (totalPlayingTime r) d\<rparr> else r) ros = ros"
    by (induction ros) auto
  with None show ?thesis by (simp add: creditPlayer_def)
next
  case (Some i)
  from findIndex_Some [OF Some] have i: "i < length ros" "player_id (ros ! i) = player_id p"
    by auto
  have other: "player_id (ros ! j) \<noteq> player_id p" if "j < length ros" "j \<noteq> i" for j
  proof
    assume "player_id (ros ! j) = player_id p"
    with i that have "map player_id ros ! j = map player_id ros ! i" by simp
    with assms that i(1) show False
      by (simp add: nth_eq_iff_index_eq del: nth_map)
  qed
  show ?thesis
    unfolding creditPlayer_def Some option.case
    by (rule nth_equalityI) (auto simp: nth_list_update i other)
qed

lemma foldl_creditPlayer:
  assumes "distinct (map player_id ros)" and "distinct (map player_id ls)"
  shows "foldl (creditPlayer d) ros ls =
         map (\<lambda>r. if player_id r \<in> player_id ` set ls
                   then r\<lparr>totalPlayingTime := jadd (totalPlayingTime r) d\<rparr> else r) ros"
  using assms
proof (induction ls arbitrary: ros)
  case Nil
  then show ?case by simp
next
  case (Cons l ls)
  have d': "distinct (map player_id (creditPlayer d ros l))"
    using Cons.prems(1) by (simp add: creditPlayer_ids)
  have notin: "player_id l \<notin> player_id ` set ls"
    using Cons.prems(2) by auto
  have "foldl (creditPlayer d) ros (l # ls) = foldl (creditPlayer d) (creditPlayer d ros l) ls"
    by simp
  also have "\<dots> = map (\<lambda>r. if player_id r \<in> player_id ` set ls
                   then r\<lparr>totalPlayingTime := jadd (totalPlayingTime r) d\<rparr> else r)
                 (creditPlayer d ros l)"
    using Cons.IH [OF d'] Cons.prems(2) by simp
  also have "\<dots> = map (\<lambda>r. if player_id r \<in> player_id ` set (l # ls)
                   then r\<lparr>totalPlayingTime := jadd (totalPlayingTime r) d\<rparr> else r) ros"
    using notin by (auto simp: creditPlayer_distinct [OF Cons.prems(1)])
  finally show ?case .
qed

section \<open>Completing a period\<close>

text \<open>
  C10. For a period found by its id, \<^verbatim>\<open>completePeriod(id, 0)\<close> does what
  \<^verbatim>\<open>completePeriod(id)\<close> does: the period is marked completed, its
  \<^verbatim>\<open>actualDuration\<close> is \<^verbatim>\<open>settings.periodDuration\<close> and not zero, and (roster ids
  and lineup ids being distinct) the roster players of the lineup, and only
  they, have the full \<^verbatim>\<open>periodDuration\<close> added to their playing time.
\<close>

theorem completePeriod_zero_is_default:
  assumes "findIndex (\<lambda>p. period_id p = pid) (periods g) = Some k"
      and "distinct (map player_id (roster g))"
      and "distinct (map player_id (lineup (periods g ! k)))"
  shows "completePeriod g pid (Some (Num 0)) = completePeriod g pid None
       \<and> length (periods (completePeriod g pid (Some (Num 0)))) = length (periods g)
       \<and> isCompleted (periods (completePeriod g pid (Some (Num 0))) ! k)
       \<and> actualDuration (periods (completePeriod g pid (Some (Num 0))) ! k)
           = Some (periodDuration (settings g))
       \<and> lineup (periods (completePeriod g pid (Some (Num 0))) ! k) = lineup (periods g ! k)
       \<and> roster (completePeriod g pid (Some (Num 0)))
           = map (\<lambda>r. if player_id r \<in> player_id ` set (lineup (periods g ! k))
                       then r\<lparr>totalPlayingTime :=
                               jadd (totalPlayingTime r) (periodDuration (settings g))\<rparr>
                       else r) (roster g)"
proof -
  from findIndex_Some [OF assms(1)] have k: "k < length (periods g)" by simp
  have dur: "durationOrDefault (Some (Num 0)) (periodDuration (settings g))
             = periodDuration (settings g)"
    by (simp add: durationOrDefault_def)
  have same: "completePeriod g pid (Some (Num 0)) = completePeriod g pid None"
    by (simp add: completePeriod_def durationOrDefault_def assms(1))
  have ros: "roster (completePeriod g pid (Some (Num 0)))
             = foldl (creditPlayer (periodDuration (settings g))) (roster g)
                 (lineup (periods g ! k))"
    by (simp add: completePeriod_def assms(1) dur Let_def)
  have per: "periods (completePeriod g pid (Some (Num 0)))
             = (periods g)[k := (periods g ! k)\<lparr>isCompleted := True,
                   actualDuration := Some (periodDuration (settings g))\<rparr>]"
    by (simp add: completePeriod_def assms(1) dur Let_def)
  show ?thesis
  proof (rule conjI [OF same])
    show "length (periods (completePeriod g pid (Some (Num 0)))) = length (periods g)
       \<and> isCompleted (periods (completePeriod g pid (Some (Num 0))) ! k)
       \<and> actualDuration (periods (completePeriod g pid (Some (Num 0))) ! k)
           = Some (periodDuration (settings g))
       \<and> lineup (periods (completePeriod g pid (Some (Num 0))) ! k) = lineup (periods g ! k)
       \<and> roster (completePeriod g pid (Some (Num 0)))
           = map (\<lambda>r. if player_id r \<in> player_id ` set (lineup (periods g ! k))
                       then r\<lparr>totalPlayingTime :=
                               jadd (totalPlayingTime r) (periodDuration (settings g))\<rparr>
                       else r) (roster g)"
      using k by (simp add: per ros foldl_creditPlayer [OF assms(2,3)])
  qed
qed

theorem completePeriod_zero_is_default_witness:
  "actualDuration (periods (completePeriod game1 ''period-1'' (Some (Num 0))) ! 0) = Some (Num 4)
   \<and> map totalPlayingTime (roster (completePeriod game1 ''period-1'' (Some (Num 0))))
       = [Num 4, Num 0]"
proof -
  have f: "findIndex (\<lambda>p. period_id p = ''period-1'') (periods game1) = Some 0"
    by (simp add: game1_def period1_def)
  have d1: "distinct (map player_id (roster game1))"
    by (simp add: game1_def alex_def marcus_def mkPlayer_def)
  have d2: "distinct (map player_id (lineup (periods game1 ! 0)))"
    by (simp add: game1_def period1_def)
  note t = completePeriod_zero_is_default [OF f d1 d2]
  from t have a: "actualDuration (periods (completePeriod game1 ''period-1'' (Some (Num 0))) ! 0)
                  = Some (periodDuration (settings game1))"
    by blast
  from t have r: "roster (completePeriod game1 ''period-1'' (Some (Num 0)))
           = map (\<lambda>r. if player_id r \<in> player_id ` set (lineup (periods game1 ! 0))
                       then r\<lparr>totalPlayingTime :=
                               jadd (totalPlayingTime r) (periodDuration (settings game1))\<rparr>
                       else r) (roster game1)"
    by blast
  show ?thesis
    unfolding a r
    by (simp add: game1_def period1_def alex_def marcus_def mkPlayer_def defaultGameSettings_def)
qed

text \<open>
  C1. \<^verbatim>\<open>completePeriod\<close> has no test of \<^verbatim>\<open>isCompleted\<close>: a second call on the
  same period credits the lineup again. With a duration of 4 the lineup player
  has 4 minutes after the first call and 8 after the second; the player
  outside the lineup stays at 0.
\<close>

theorem completePeriod_twice_credits_twice:
  "map totalPlayingTime (roster (completePeriod game1 ''period-1'' (Some (Num 4))))
     = [Num 4, Num 0]
   \<and> map totalPlayingTime
       (roster (completePeriod (completePeriod game1 ''period-1'' (Some (Num 4)))
                  ''period-1'' (Some (Num 4))))
     = [Num 8, Num 0]"
  by (simp add: completePeriod_def durationOrDefault_def creditPlayer_def Let_def game1_def
      period1_def alex_def marcus_def mkPlayer_def defaultGameSettings_def)

lemma find_Some_holds: "find P xs = Some x \<Longrightarrow> x \<in> set xs \<and> P x"
  by (auto simp: find_Some_iff)

section \<open>Swapping players\<close>

text \<open>
  C7. For a period found by its id, \<^verbatim>\<open>swapPlayers\<close> returns false exactly when
  the period is completed, or no lineup entry has the id \<^verbatim>\<open>playerOutId\<close>, or no
  present roster player has the id \<^verbatim>\<open>playerInId\<close>, or a lineup entry already has
  that id. A failed call leaves the game as it was. A successful call changes
  nothing but the lineup of that period, where the first entry with the id
  \<^verbatim>\<open>playerOutId\<close> is overwritten by the first present roster player with the id
  \<^verbatim>\<open>playerInId\<close>: the list update keeps the length and every other entry.
\<close>

theorem swapPlayers_fails_exactly:
  assumes "findIndex (\<lambda>p. period_id p = periodId) (periods g) = Some k"
  shows "(fst (swapPlayers g periodId outId inId) = False \<longleftrightarrow>
            isCompleted (periods g ! k)
          \<or> outId \<notin> player_id ` set (lineup (periods g ! k))
          \<or> \<not> (\<exists>r\<in>set (roster g). player_id r = inId \<and> isPresent r)
          \<or> inId \<in> player_id ` set (lineup (periods g ! k)))
       \<and> (fst (swapPlayers g periodId outId inId) = False \<longrightarrow>
            snd (swapPlayers g periodId outId inId) = g)
       \<and> (fst (swapPlayers g periodId outId inId) = True \<longrightarrow>
            (\<exists>i r. findIndex (\<lambda>p. player_id p = outId) (lineup (periods g ! k)) = Some i
                 \<and> find (\<lambda>p. player_id p = inId \<and> isPresent p) (roster g) = Some r
                 \<and> snd (swapPlayers g periodId outId inId)
                     = g\<lparr>periods := (periods g)
                          [k := (periods g ! k)\<lparr>lineup := (lineup (periods g ! k))[i := r]\<rparr>]\<rparr>))"
proof (cases "isCompleted (periods g ! k)")
  case True
  with assms show ?thesis by (simp add: swapPlayers_def Let_def)
next
  case open_period: False
  show ?thesis
  proof (cases "findIndex (\<lambda>p. player_id p = outId) (lineup (periods g ! k))")
    case None
    then have "outId \<notin> player_id ` set (lineup (periods g ! k))"
      by (auto simp: findIndex_None)
    with assms open_period None show ?thesis by (simp add: swapPlayers_def Let_def)
  next
    case out: (Some i)
    from findIndex_Some [OF out] have out_in: "outId \<in> player_id ` set (lineup (periods g ! k))"
      by (metis image_eqI nth_mem)
    show ?thesis
    proof (cases "find (\<lambda>p. player_id p = inId \<and> isPresent p) (roster g)")
      case None
      then have "\<not> (\<exists>r\<in>set (roster g). player_id r = inId \<and> isPresent r)"
        by (simp add: find_None_iff)
      with assms open_period out None show ?thesis by (simp add: swapPlayers_def Let_def)
    next
      case inn: (Some r)
      from find_Some_holds [OF inn] have present: "\<exists>r\<in>set (roster g). player_id r = inId \<and> isPresent r"
        by blast
      show ?thesis
      proof (cases "inId \<in> player_id ` set (lineup (periods g ! k))")
        case True
        then have "list_ex (\<lambda>p. player_id p = inId) (lineup (periods g ! k))"
          by (auto simp: list_ex_iff)
        with assms open_period out inn True show ?thesis by (simp add: swapPlayers_def Let_def)
      next
        case False
        then have "\<not> list_ex (\<lambda>p. player_id p = inId) (lineup (periods g ! k))"
          by (auto simp: list_ex_iff)
        with assms open_period out inn False out_in present show ?thesis
          by (simp add: swapPlayers_def Let_def)
      qed
    qed
  qed
qed

theorem swapPlayers_fails_exactly_witness:
  "fst (swapPlayers swapGame ''period-1'' ''B'' ''F'') = True
   \<and> map lineup (periods (snd (swapPlayers swapGame ''period-1'' ''B'' ''F'')))
       = [[playerA, playerF, playerC, playerD, playerE]]
   \<and> fst (swapPlayers swapGame ''period-1'' ''B'' ''A'') = False
   \<and> snd (swapPlayers swapGame ''period-1'' ''B'' ''A'') = swapGame"
proof -
  have f: "findIndex (\<lambda>p. period_id p = ''period-1'') (periods swapGame) = Some 0"
    by (simp add: swapGame_def)
  have ids: "map player_id (lineup (periods swapGame ! 0)) = [''A'', ''B'', ''C'', ''D'', ''E'']"
    by (simp add: swapGame_def playerA_def playerB_def playerC_def playerD_def playerE_def
        mkPlayer_def)
  have idset: "player_id ` set (lineup (periods swapGame ! 0)) = {''A'', ''B'', ''C'', ''D'', ''E''}"
    using arg_cong [OF ids, of set] by simp
  have notdone: "\<not> isCompleted (periods swapGame ! 0)"
    by (simp add: swapGame_def)
  have fpres: "\<exists>r\<in>set (roster swapGame). player_id r = ''F'' \<and> isPresent r"
    by (simp add: swapGame_def playerF_def mkPlayer_def)
  note bf = swapPlayers_fails_exactly [OF f, of "''B''" "''F''"]
  note ba = swapPlayers_fails_exactly [OF f, of "''B''" "''A''"]
  from bf notdone fpres have ok: "fst (swapPlayers swapGame ''period-1'' ''B'' ''F'') = True"
    unfolding idset by simp
  from ba have ko: "fst (swapPlayers swapGame ''period-1'' ''B'' ''A'') = False"
    unfolding idset by simp
  with ba have same: "snd (swapPlayers swapGame ''period-1'' ''B'' ''A'') = swapGame"
    by blast
  have i: "findIndex (\<lambda>p. player_id p = ''B'') (lineup (periods swapGame ! 0)) = Some 1"
    by (simp add: swapGame_def playerA_def playerB_def mkPlayer_def)
  have r: "find (\<lambda>p. player_id p = ''F'' \<and> isPresent p) (roster swapGame) = Some playerF"
    by (simp add: swapGame_def playerA_def playerB_def playerC_def playerD_def playerE_def
        playerF_def mkPlayer_def)
  from bf ok i r have "snd (swapPlayers swapGame ''period-1'' ''B'' ''F'')
      = swapGame\<lparr>periods := (periods swapGame)
           [0 := (periods swapGame ! 0)\<lparr>lineup := (lineup (periods swapGame ! 0))[1 := playerF]\<rparr>]\<rparr>"
    by auto
  then have "map lineup (periods (snd (swapPlayers swapGame ''period-1'' ''B'' ''F'')))
       = [[playerA, playerF, playerC, playerD, playerE]]"
    by (simp add: swapGame_def)
  with ok ko same show ?thesis by simp
qed

section \<open>The playing-time report\<close>

lemma finite_num_iff: "finite_num x \<longleftrightarrow> (\<exists>a. x = Num a)"
  by (cases x) auto

lemma insertBy_finite:
  assumes "finite_num (key x)" and "\<forall>y\<in>set ys. finite_num (key y)"
  shows "insertBy (\<lambda>a b. jsub (key a) (key b)) x ys = insort_key (\<lambda>e. num_val (key e)) x ys"
  using assms(2)
proof (induction ys)
  case Nil
  show ?case by simp
next
  case (Cons y ys)
  from assms(1) obtain a where a: "key x = Num a" by (auto simp: finite_num_iff)
  from Cons.prems obtain b where b: "key y = Num b" by (auto simp: finite_num_iff)
  from Cons show ?case by (auto simp: a b jsub_def)
qed

lemma sortBy_finite:
  assumes "\<forall>y\<in>set xs. finite_num (key y)"
  shows "sortBy (\<lambda>a b. jsub (key a) (key b)) xs = sort_key (\<lambda>e. num_val (key e)) xs"
  using assms
proof (induction xs)
  case Nil
  show ?case by (simp add: sortBy_def)
next
  case (Cons x xs)
  then have ih: "sortBy (\<lambda>a b. jsub (key a) (key b)) xs = sort_key (\<lambda>e. num_val (key e)) xs"
    by simp
  have "\<forall>y\<in>set (sort_key (\<lambda>e. num_val (key e)) xs). finite_num (key y)"
    using Cons.prems by simp
  with Cons.prems ih show ?case
    by (simp add: sortBy_def insertBy_finite)
qed

lemma sorted_finite_jle:
  assumes "sorted (map (\<lambda>e. num_val (key e)) xs)" and "\<forall>y\<in>set xs. finite_num (key y)"
  shows "sorted_wrt (\<lambda>a b. jle (key a) (key b)) xs"
proof -
  from assms(1) have "sorted_wrt (\<lambda>a b. num_val (key a) \<le> num_val (key b)) xs"
    by (simp add: sorted_map)
  then show ?thesis
  proof (rule sorted_wrt_mono_rel [rotated])
    fix a b
    assume "a \<in> set xs" "b \<in> set xs" "num_val (key a) \<le> num_val (key b)"
    moreover from assms(2) \<open>a \<in> set xs\<close> obtain u where "key a = Num u"
      by (auto simp: finite_num_iff)
    moreover from assms(2) \<open>b \<in> set xs\<close> obtain v where "key b = Num v"
      by (auto simp: finite_num_iff)
    ultimately show "jle (key a) (key b)" by simp
  qed
qed

lemma mset_insertBy: "mset (insertBy cmp x ys) = add_mset x (mset ys)"
  by (induction ys) auto

lemma mset_sortBy: "mset (sortBy cmp xs) = mset xs"
  by (induction xs) (auto simp: sortBy_def mset_insertBy)

lemma set_sortBy: "set (sortBy cmp xs) = set xs"
  using mset_sortBy [of cmp xs] by (metis set_mset_mset)

lemma jdiv_by_positive:
  "0 < n \<Longrightarrow> jdiv (Num a) (jnat n) = Num (a / of_nat n)"
  by (simp add: jnat_def)

lemma jdiv_by_zero_not_finite: "\<not> finite_num (jdiv x (jnat 0))"
  by (cases x) (auto simp: jnat_def inf_of_sign_def)

text \<open>
  C8. With finite settings and finite playing times, and at least one present
  player, the report has one entry for each present player and no other. Every
  entry has the target \<^verbatim>\<open>(periodsCount * periodDuration * playersOnCourt) /
  presentPlayers\<close>, a finite number, and the difference \<^verbatim>\<open>totalPlayingTime - target\<close>;
  the entries are in ascending order of their differences.
\<close>

theorem getPlayingTimeReport_sorted_by_difference:
  assumes "finite_num (periodsCount (settings g))"
      and "finite_num (periodDuration (settings g))"
      and "finite_num (playersOnCourt (settings g))"
      and "\<forall>p\<in>set (roster g). isPresent p \<longrightarrow> finite_num (totalPlayingTime p)"
      and "filter isPresent (roster g) \<noteq> []"
  shows "mset (map player (getPlayingTimeReport g)) = mset (filter isPresent (roster g))
       \<and> (\<forall>e\<in>set (getPlayingTimeReport g).
              minutes e = totalPlayingTime (player e)
            \<and> target e = jdiv (jmul (jmul (periodsCount (settings g))
                                          (periodDuration (settings g)))
                                    (playersOnCourt (settings g)))
                              (jnat (length (filter isPresent (roster g))))
            \<and> finite_num (target e)
            \<and> difference e = jsub (totalPlayingTime (player e)) (target e))
       \<and> sorted_wrt (\<lambda>x y. jle (difference x) (difference y)) (getPlayingTimeReport g)"
proof -
  let ?present = "filter isPresent (roster g)"
  let ?t = "targetTimePerPlayer g"
  let ?entries = "map (reportEntry ?t) ?present"
  have rep: "getPlayingTimeReport g = sortBy (\<lambda>a b. jsub (difference a) (difference b)) ?entries"
    by (simp add: getPlayingTimeReport_def)
  have t: "?t = jdiv (jmul (jmul (periodsCount (settings g)) (periodDuration (settings g)))
                       (playersOnCourt (settings g))) (jnat (length ?present))"
    by (simp add: targetTimePerPlayer_def)
  from assms(1-3) obtain a b c where abc: "periodsCount (settings g) = Num a"
      "periodDuration (settings g) = Num b" "playersOnCourt (settings g) = Num c"
    by (auto simp: finite_num_iff)
  from assms(5) have pos: "0 < length ?present" by simp
  have tfin: "finite_num ?t"
    unfolding t abc by (simp add: jdiv_by_positive [OF pos])
  then obtain tv where tv: "?t = Num tv" by (auto simp: finite_num_iff)
  have dfin: "\<forall>e\<in>set ?entries. finite_num (difference e)"
  proof
    fix e assume "e \<in> set ?entries"
    then obtain p where p: "p \<in> set (roster g)" "isPresent p" "e = reportEntry ?t p"
      by auto
    with assms(4) obtain u where "totalPlayingTime p = Num u"
      by (auto simp: finite_num_iff)
    with p(3) show "finite_num (difference e)"
      by (simp add: reportEntry_def tv jsub_def)
  qed
  have players: "mset (map player (getPlayingTimeReport g)) = mset ?present"
  proof -
    have "mset (map player (getPlayingTimeReport g)) = image_mset player (mset ?entries)"
      unfolding rep mset_map mset_sortBy ..
    also have "\<dots> = mset (map player ?entries)"
      unfolding mset_map ..
    also have "map player ?entries = ?present"
      by (simp add: reportEntry_def comp_def)
    finally show ?thesis .
  qed
  have fields: "\<forall>e\<in>set (getPlayingTimeReport g).
              minutes e = totalPlayingTime (player e)
            \<and> target e = jdiv (jmul (jmul (periodsCount (settings g))
                                          (periodDuration (settings g)))
                                    (playersOnCourt (settings g)))
                              (jnat (length (filter isPresent (roster g))))
            \<and> finite_num (target e)
            \<and> difference e = jsub (totalPlayingTime (player e)) (target e)"
  proof
    fix e assume "e \<in> set (getPlayingTimeReport g)"
    then have "e \<in> set ?entries" by (simp add: rep set_sortBy)
    then obtain p where "e = reportEntry ?t p" by auto
    with tfin t show "minutes e = totalPlayingTime (player e)
            \<and> target e = jdiv (jmul (jmul (periodsCount (settings g))
                                          (periodDuration (settings g)))
                                    (playersOnCourt (settings g)))
                              (jnat (length (filter isPresent (roster g))))
            \<and> finite_num (target e)
            \<and> difference e = jsub (totalPlayingTime (player e)) (target e)"
      by (simp add: reportEntry_def)
  qed
  have ordered: "sorted_wrt (\<lambda>x y. jle (difference x) (difference y)) (getPlayingTimeReport g)"
  proof -
    have eq: "getPlayingTimeReport g = sort_key (\<lambda>e. num_val (difference e)) ?entries"
      unfolding rep by (rule sortBy_finite [OF dfin])
    have "sorted (map (\<lambda>e. num_val (difference e)) (getPlayingTimeReport g))"
      unfolding eq by (rule sorted_sort_key)
    moreover have "\<forall>e\<in>set (getPlayingTimeReport g). finite_num (difference e)"
      using dfin by (simp add: eq)
    ultimately show ?thesis by (rule sorted_finite_jle)
  qed
  from players fields ordered show ?thesis by blast
qed

theorem getPlayingTimeReport_sorted_by_difference_witness:
  "mset (map player (getPlayingTimeReport reportGame)) = mset (filter isPresent (roster reportGame))
   \<and> sorted_wrt (\<lambda>x y. jle (difference x) (difference y)) (getPlayingTimeReport reportGame)
   \<and> map (\<lambda>e. (player_id (player e), target e, difference e)) (getPlayingTimeReport reportGame)
       = [(''P3'', Num 6, Num (- 4)), (''P1'', Num 6, Num (- 2)), (''P2'', Num 6, Num 2)]"
proof -
  have h1: "finite_num (periodsCount (settings reportGame))"
    and h2: "finite_num (periodDuration (settings reportGame))"
    and h3: "finite_num (playersOnCourt (settings reportGame))"
    by (simp_all add: reportGame_def)
  have h4: "\<forall>p\<in>set (roster reportGame). isPresent p \<longrightarrow> finite_num (totalPlayingTime p)"
    by (simp add: reportGame_def mkPlayer_def)
  have h5: "filter isPresent (roster reportGame) \<noteq> []"
    by (simp add: reportGame_def mkPlayer_def)
  note t = getPlayingTimeReport_sorted_by_difference [OF h1 h2 h3 h4 h5]
  have "map (\<lambda>e. (player_id (player e), target e, difference e)) (getPlayingTimeReport reportGame)
       = [(''P3'', Num 6, Num (- 4)), (''P1'', Num 6, Num (- 2)), (''P2'', Num 6, Num 2)]"
    by (simp add: getPlayingTimeReport_def sortBy_def reportEntry_def targetTimePerPlayer_def
        jsub_def jnat_def reportGame_def mkPlayer_def)
  with t show ?thesis by blast
qed

text \<open>
  C4. With no present player the report is the empty array: the entries are
  made from the present players, and there is none. The target is computed
  all the same, by a division by zero, and is an infinity or NaN, but no entry
  carries it and nothing tells the caller.
\<close>

theorem getPlayingTimeReport_nobody_present:
  assumes "filter isPresent (roster g) = []"
  shows "getPlayingTimeReport g = [] \<and> \<not> finite_num (targetTimePerPlayer g)"
  using assms
  by (simp add: getPlayingTimeReport_def sortBy_def targetTimePerPlayer_def
      jdiv_by_zero_not_finite)

theorem getPlayingTimeReport_nobody_present_witness:
  "filter isPresent (roster absentGame) = [] \<and> getPlayingTimeReport absentGame = []
   \<and> \<not> finite_num (targetTimePerPlayer absentGame)"
proof -
  have h: "filter isPresent (roster absentGame) = []"
    by (simp add: absentGame_def mkPlayer_def)
  from h getPlayingTimeReport_nobody_present [OF h] show ?thesis by simp
qed

theorem getPlayingTimeReport_no_error_reported:
  "length (filter isPresent (roster absentGame)) = 0
   \<and> getPlayingTimeReport absentGame = []
   \<and> targetTimePerPlayer absentGame = PosInf"
  by (simp add: getPlayingTimeReport_def sortBy_def targetTimePerPlayer_def jnat_def
      inf_of_sign_def absentGame_def defaultGameSettings_def mkPlayer_def)

section \<open>Late arrivals\<close>

lemma inf_of_sign_simps [simp]:
  "inf_of_sign 0 = NaN"
  "0 < a \<Longrightarrow> inf_of_sign a = PosInf"
  "a < 0 \<Longrightarrow> inf_of_sign a = NegInf"
  by (simp_all add: inf_of_sign_def)

lemma jmul_commute: "jmul a b = jmul b a"
  by (cases a; cases b) (simp_all add: mult.commute)






section \<open>Position balance\<close>

lemma Position_not_Any: "p \<noteq> Any \<longleftrightarrow> p \<in> {Guard, Forward, Center}"
  by (cases p) auto

lemma uniquePositions_card:
  "length (remdups (filter (\<lambda>p. p \<noteq> Any) (map position ps)))
   = card (position ` set ps \<inter> {Guard, Forward, Center})"
proof -
  have "set (filter (\<lambda>p. p \<noteq> Any) (map position ps))
        = position ` set ps \<inter> {Guard, Forward, Center}"
    by (auto simp: Position_not_Any)
  then show ?thesis
    by (simp add: length_remdups_card_conv)
qed

lemma uniquePositions_le_3:
  "length (remdups (filter (\<lambda>p. p \<noteq> Any) (map position ps))) \<le> 3"
proof -
  have "card (position ` set ps \<inter> {Guard, Forward, Center}) \<le> card {Guard, Forward, Center}"
    by (rule card_mono) auto
  then show ?thesis by (simp add: uniquePositions_card)
qed

lemma uniquePositions_le_length:
  "length (remdups (filter (\<lambda>p. p \<noteq> Any) (map position ps))) \<le> length ps"
proof -
  have "length (remdups (filter (\<lambda>p. p \<noteq> Any) (map position ps)))
        \<le> length (filter (\<lambda>p. p \<noteq> Any) (map position ps))"
    by (rule length_remdups_leq)
  also have "\<dots> \<le> length (map position ps)" by (rule length_filter_le)
  finally show ?thesis by simp
qed

lemma uniquePositions_eq_3:
  "length (remdups (filter (\<lambda>p. p \<noteq> Any) (map position ps))) = 3
   \<longleftrightarrow> {Guard, Forward, Center} \<subseteq> position ` set ps"
proof -
  let ?S = "{Guard, Forward, Center}"
  let ?X = "position ` set ps \<inter> ?S"
  have c3: "card ?S = 3" by simp
  have "card ?X = 3 \<longleftrightarrow> ?X = ?S"
  proof
    assume "card ?X = 3"
    then have "card ?X = card ?S" by (simp only: c3)
    moreover have "finite ?S" by simp
    moreover have "?X \<subseteq> ?S" by (rule Int_lower2)
    ultimately show "?X = ?S" by (rule card_subset_eq [rotated 2])
  next
    assume "?X = ?S"
    then show "card ?X = 3" by (simp only: c3)
  qed
  also have "?X = ?S \<longleftrightarrow> ?S \<subseteq> position ` set ps"
    by blast
  finally show ?thesis by (simp only: uniquePositions_card)
qed

text \<open>
  For a lineup that is not empty the position balance is the finite number
  \<open>uniquePositions / min 3 (length lineup)\<close>, between 0 and 1, and for three or
  more players it is 1 exactly when Guard, Forward and Center all occur.
\<close>

lemma calculatePositionBalance_nonempty:
  assumes "ps \<noteq> []"
  shows "calculatePositionBalance ps
           = Num (of_nat (card (position ` set ps \<inter> {Guard, Forward, Center}))
                  / of_nat (min 3 (length ps)))
       \<and> jle (Num 0) (calculatePositionBalance ps)
       \<and> jle (calculatePositionBalance ps) (Num 1)
       \<and> (3 \<le> length ps \<longrightarrow>
            (calculatePositionBalance ps = Num 1
               \<longleftrightarrow> {Guard, Forward, Center} \<subseteq> position ` set ps))"
proof -
  let ?u = "length (remdups (filter (\<lambda>p. p \<noteq> Any) (map position ps)))"
  let ?m = "min 3 (length ps)"
  from assms have m: "0 < ?m" by simp
  have "calculatePositionBalance ps = jdiv (Num (of_nat ?u)) (jnat ?m)"
    by (simp add: calculatePositionBalance_def Let_def jnat_def)
  then have val: "calculatePositionBalance ps = Num (of_nat ?u / of_nat ?m)"
    by (simp only: jdiv_by_positive [OF m])
  have um: "?u \<le> ?m"
    using uniquePositions_le_3 [of ps] uniquePositions_le_length [of ps] by simp
  have lo: "(0::rat) \<le> of_nat ?u / of_nat ?m" by simp
  have hi: "(of_nat ?u :: rat) / of_nat ?m \<le> 1"
  proof -
    from um have "(of_nat ?u :: rat) \<le> of_nat ?m" by (simp only: of_nat_le_iff)
    moreover from m have "(0::rat) < of_nat ?m" by (simp only: of_nat_0_less_iff)
    ultimately show ?thesis by (simp only: divide_le_eq_1_pos)
  qed
  have one: "calculatePositionBalance ps = Num 1
               \<longleftrightarrow> {Guard, Forward, Center} \<subseteq> position ` set ps"
    if "3 \<le> length ps"
  proof -
    from that have "?m = 3" by simp
    then have "calculatePositionBalance ps = Num (of_nat ?u / of_nat 3)"
      by (simp only: val)
    moreover have "(of_nat ?u :: rat) / of_nat 3 = 1 \<longleftrightarrow> ?u = 3"
      using of_nat_eq_iff [of ?u 3, where ?'a = rat] by simp
    ultimately have "calculatePositionBalance ps = Num 1 \<longleftrightarrow> ?u = 3"
      by simp
    then show ?thesis by (simp only: uniquePositions_eq_3)
  qed
  have val': "calculatePositionBalance ps
           = Num (of_nat (card (position ` set ps \<inter> {Guard, Forward, Center}))
                  / of_nat (min 3 (length ps)))"
    by (simp only: val uniquePositions_card)
  have "jle (Num 0) (calculatePositionBalance ps)"
    unfolding val using lo by (simp only: jle.simps)
  moreover have "jle (calculatePositionBalance ps) (Num 1)"
    unfolding val using hi by (simp only: jle.simps)
  ultimately show ?thesis using val' one by blast
qed

text \<open>
  C6. For the empty lineup both counts are 0 and the quotient is NaN, which
  is not a number between 0 and 1. \<^verbatim>\<open>generateOptimalLineup\<close> calls the function
  with the empty lineup when no player is present, and returns the NaN as the
  \<^verbatim>\<open>positionBalance\<close> of its suggestion.
\<close>

theorem calculatePositionBalance_empty_lineup:
  "calculatePositionBalance [] = NaN
   \<and> \<not> jle (Num 0) (calculatePositionBalance [])
   \<and> \<not> jle (calculatePositionBalance []) (Num 1)
   \<and> generateOptimalLineup [] defaultGameSettings []
       = Inr \<lparr>players = [], averageSkillLevel = NaN, playingTimeBalance = PosInf,
              positionBalance = NaN\<rparr>"
  by (simp add: calculatePositionBalance_def generateOptimalLineup_def
      generateStrictRotationLineup_def rotationLoop.simps sortBy_def calculatePeriodCounts_def
      calculateRotationBalance_def mathMin_def mathMax_def jsub_def jnat_def Let_def)

section \<open>The strict rotation loop\<close>

lemma mathMin_Cons: "mathMin (x # xs) = jnat (Min (set (x # xs)))"
  unfolding mathMin_def list.case by (simp only: Min.set_eq_fold)

lemma jnat_eq_iff: "jnat m = jnat n \<longleftrightarrow> m = n"
  by (simp add: jnat_def)

lemma foldl_pick_in_set: "foldl (\<lambda>best current. if c best current then current else best) x xs
                          \<in> set (x # xs)"
proof (induction xs arbitrary: x)
  case Nil
  show ?case by simp
next
  case (Cons y ys)
  from Cons [of "if c x y then y else x"] show ?case by auto
qed

lemma selectBestFromTied_in_set:
  assumes "tied \<noteq> []"
  shows "\<exists>p. selectBestFromTied tied chosen = Inr p \<and> p \<in> set tied"
proof (cases "find (\<lambda>p. position p \<noteq> Any \<and> position p \<notin> set (map position chosen)) tied")
  case (Some p)
  then have "p \<in> set tied" by (auto dest: find_Some_holds)
  with Some show ?thesis by (simp add: selectBestFromTied_def)
next
  case None
  from assms obtain t ts where tied: "tied = t # ts" by (cases tied) auto
  let ?best = "foldl (\<lambda>best current.
                        if jlt (skillLevel best) (skillLevel current) then current else best) t ts"
  have "?best \<in> set (t # ts)" by (rule foldl_pick_in_set)
  moreover from None have "selectBestFromTied tied chosen =
      (case tied of [] \<Rightarrow> Inl TypeError
       | first # others \<Rightarrow>
           Inr (foldl (\<lambda>best current.
                         if jlt (skillLevel best) (skillLevel current) then current else best)
                  first others))"
    by (simp add: selectBestFromTied_def)
  ultimately show ?thesis unfolding tied by simp
qed

text \<open>
  One selection of the loop: it raises nothing, and the selected player is an
  available player whose count no available player undercuts.
\<close>

lemma selectNext_least:
  assumes "available \<noteq> []"
  shows "\<exists>sel. selectNext counts chosen available = Inr sel \<and> sel \<in> set available
           \<and> (\<forall>r\<in>set available.
                 getOrZero counts (player_id sel) \<le> getOrZero counts (player_id r))"
proof -
  let ?cnt = "\<lambda>p. getOrZero counts (player_id p)"
  let ?m = "Min (set (map ?cnt available))"
  let ?minPlayers = "filter (\<lambda>p. ?cnt p = ?m) available"
  from assms obtain x xs where av: "available = x # xs" by (cases available) auto
  have minP: "mathMin (map ?cnt available) = jnat ?m"
    unfolding av list.map by (rule mathMin_Cons)
  have sel: "selectNext counts chosen available =
             (case ?minPlayers of [p] \<Rightarrow> Inr p | _ \<Rightarrow> selectBestFromTied ?minPlayers chosen)"
    unfolding selectNext_def Let_def minP jnat_eq_iff by (rule refl)
  from assms have "?m \<in> set (map ?cnt available)"
    by (intro Min_in) auto
  then have ne: "?minPlayers \<noteq> []"
    by (auto simp: filter_empty_conv)
  have least: "?cnt p \<le> ?cnt r" if "p \<in> set ?minPlayers" "r \<in> set available" for p r
  proof -
    from that(1) have "?cnt p = ?m" by simp
    moreover from that(2) have "?m \<le> ?cnt r" by (intro Min_le) auto
    ultimately show ?thesis by simp
  qed
  have "\<exists>p. selectNext counts chosen available = Inr p \<and> p \<in> set ?minPlayers"
  proof (cases "\<exists>p. ?minPlayers = [p]")
    case True
    then obtain p where "?minPlayers = [p]" ..
    then show ?thesis using sel by simp
  next
    case False
    then have "selectNext counts chosen available = selectBestFromTied ?minPlayers chosen"
      using sel by (auto split: list.splits)
    with selectBestFromTied_in_set [OF ne, of chosen] show ?thesis by simp
  qed
  then obtain p where p: "selectNext counts chosen available = Inr p" "p \<in> set ?minPlayers"
    by blast
  from p(2) have "p \<in> set available" by simp
  with p least show ?thesis by blast
qed

lemma mset_spliceOne:
  assumes "x \<in> set xs"
  shows "add_mset x (mset (spliceOne (indexOf x xs) xs)) = mset xs"
proof -
  from assms have "findIndex (\<lambda>y. y = x) xs \<noteq> None"
    by (simp add: findIndex_None)
  then obtain k where k: "findIndex (\<lambda>y. y = x) xs = Some k" by auto
  from findIndex_Some [OF k] have kl: "k < length xs" and kx: "xs ! k = x" by auto
  have "mset xs = mset (take k xs @ xs ! k # drop (Suc k) xs)"
    using id_take_nth_drop [OF kl] by simp
  then show ?thesis by (simp add: spliceOne_def indexOf_def k kx)
qed

text \<open>
  The loop returns the lineup it was given followed by the players it took.
  What it took and what it left make up the available players, nobody taken
  has a higher count than anybody left, and it stops short of the requested
  size only when nobody is left.
\<close>

lemma rotationLoop_result:
  "\<exists>taken rest.
      rotationLoop onCourt counts chosen available = Inr (chosen @ taken)
    \<and> mset taken + mset rest = mset available
    \<and> (\<forall>t\<in>set taken. \<forall>r\<in>set rest.
          getOrZero counts (player_id t) \<le> getOrZero counts (player_id r))
    \<and> (rest = [] \<or> \<not> jlt (jnat (length (chosen @ taken))) onCourt)"
proof (induction onCourt counts chosen available rule: rotationLoop.induct)
  case (1 onCourt counts chosen available)
  let ?cnt = "\<lambda>p. getOrZero counts (player_id p)"
  show ?case
  proof (cases "jlt (jnat (length chosen)) onCourt \<and> available \<noteq> []")
    case False
    then have "rotationLoop onCourt counts chosen available = Inr (chosen @ [])"
      by (subst rotationLoop.simps) auto
    moreover have "mset [] + mset available = mset available" by simp
    moreover from False have "available = [] \<or> \<not> jlt (jnat (length (chosen @ []))) onCourt"
      by auto
    ultimately show ?thesis by (intro exI [of _ "[]"] exI [of _ available]) simp
  next
    case True
    then have ne: "available \<noteq> []" by simp
    from selectNext_least [OF ne, of counts chosen] obtain sel where
      sel: "selectNext counts chosen available = Inr sel" "sel \<in> set available"
        "\<forall>r\<in>set available. ?cnt sel \<le> ?cnt r"
      by blast
    let ?rest = "spliceOne (indexOf sel available) available"
    from "1.IH" [OF True sel(1)] obtain taken rest where
      ih: "rotationLoop onCourt counts (chosen @ [sel]) ?rest = Inr ((chosen @ [sel]) @ taken)"
        "mset taken + mset rest = mset ?rest"
        "\<forall>t\<in>set taken. \<forall>r\<in>set rest. ?cnt t \<le> ?cnt r"
        "rest = [] \<or> \<not> jlt (jnat (length ((chosen @ [sel]) @ taken))) onCourt"
      by blast
    have run: "rotationLoop onCourt counts chosen available = Inr (chosen @ sel # taken)"
      using True sel(1) ih(1) by (subst rotationLoop.simps) simp
    have parts: "mset (sel # taken) + mset rest = mset available"
      using ih(2) mset_spliceOne [OF sel(2)] by simp
    have "set_mset (mset rest) \<subseteq> set_mset (mset available)"
      using parts by (metis mset_subset_eq_add_right set_mset_mono)
    then have sub: "set rest \<subseteq> set available" by simp
    have order: "\<forall>t\<in>set (sel # taken). \<forall>r\<in>set rest. ?cnt t \<le> ?cnt r"
      using ih(3) sel(3) sub by auto
    have stop: "rest = [] \<or> \<not> jlt (jnat (length (chosen @ sel # taken))) onCourt"
      using ih(4) by simp
    from run parts order stop show ?thesis by blast
  qed
qed

subsection \<open>The counts of calculatePeriodCounts\<close>

lemma getOrZero_update:
  "getOrZero (AList.update k v m) k' = (if k' = k then v else getOrZero m k')"
  by (simp add: getOrZero_def update_conv')

lemma getOrZero_countPlayer:
  "getOrZero (countPlayer m p) k = getOrZero m k + (if k = player_id p then 1 else 0)"
  by (simp add: countPlayer_def getOrZero_update)

lemma getOrZero_foldl_countPlayer:
  "getOrZero (foldl countPlayer m ls) k = getOrZero m k + count_list (map player_id ls) k"
  by (induction ls arbitrary: m) (auto simp: getOrZero_countPlayer)

lemma getOrZero_initial:
  "getOrZero (foldl (\<lambda>counts p. AList.update (player_id p) 0 counts) m present) k
   = (if k \<in> player_id ` set present then 0 else getOrZero m k)"
  by (induction present arbitrary: m) (auto simp: getOrZero_update)

lemma getOrZero_history:
  "getOrZero (foldl (\<lambda>counts period.
                       if isCompleted period then foldl countPlayer counts (lineup period)
                       else counts) m history) k
   = getOrZero m k
     + (\<Sum>per\<leftarrow>history. if isCompleted per then count_list (map player_id (lineup per)) k else 0)"
  by (induction history arbitrary: m) (auto simp: getOrZero_foldl_countPlayer)

lemma count_list_distinct:
  "distinct xs \<Longrightarrow> count_list xs k = (if k \<in> set xs then 1 else 0)"
  by (induction xs) auto

lemma sum_list_indicator:
  "(\<Sum>x\<leftarrow>xs. if P x then 1 else 0) = length (filter P xs)"
  by (induction xs) auto

text \<open>
  The count the generator works with is the number of lineup entries with the
  player's id in completed periods. When no completed lineup repeats an id,
  that is the number of completed periods the player is in.
\<close>

lemma calculatePeriodCounts_periodsPlayed:
  assumes "\<forall>per\<in>set history. isCompleted per \<longrightarrow> distinct (map player_id (lineup per))"
  shows "getOrZero (calculatePeriodCounts present history) (player_id p)
         = periodsPlayed history p"
proof -
  have "(\<Sum>per\<leftarrow>history. if isCompleted per
                            then count_list (map player_id (lineup per)) (player_id p) else 0)
        = (\<Sum>per\<leftarrow>history. if isCompleted per
                                 \<and> player_id p \<in> player_id ` set (lineup per) then 1 else 0)"
    using assms by (intro arg_cong [of _ _ sum_list] map_cong) (auto simp: count_list_distinct)
  also have "\<dots> = periodsPlayed history p"
    unfolding periodsPlayed_def by (rule sum_list_indicator)
  finally have played: "(\<Sum>per\<leftarrow>history. if isCompleted per
                            then count_list (map player_id (lineup per)) (player_id p) else 0)
        = periodsPlayed history p" .
  have empty: "getOrZero [] (player_id p) = 0"
    by (simp add: getOrZero_def)
  show ?thesis
    by (simp add: calculatePeriodCounts_def getOrZero_history getOrZero_initial empty played)
qed

subsection \<open>The generated lineup\<close>

text \<open>
  \<^verbatim>\<open>generateOptimalLineup\<close> always returns a suggestion. Its players and some
  rest make up the present players; nobody in the lineup has a higher count
  than anybody in the rest; the lineup is shorter than \<^verbatim>\<open>playersOnCourt\<close> only
  when the rest is empty. The proof uses of the initial sort only that it
  permutes the present players: the loop has these properties from whatever
  order it starts.
\<close>

lemma generateOptimalLineup_result:
  "\<exists>s rest.
      generateOptimalLineup ros st history = Inr s
    \<and> mset (players s) + mset rest = mset (filter isPresent ros)
    \<and> (\<forall>t\<in>set (players s). \<forall>r\<in>set rest.
          getOrZero (calculatePeriodCounts (filter isPresent ros) history) (player_id t)
          \<le> getOrZero (calculatePeriodCounts (filter isPresent ros) history) (player_id r))
    \<and> (rest = [] \<or> \<not> jlt (jnat (length (players s))) (playersOnCourt st))"
proof -
  let ?present = "filter isPresent ros"
  let ?counts = "calculatePeriodCounts ?present history"
  let ?sorted = "sortBy (compareRotation ?counts) ?present"
  from rotationLoop_result [of "playersOnCourt st" ?counts "[]" ?sorted]
  obtain taken rest where
    r: "rotationLoop (playersOnCourt st) ?counts [] ?sorted = Inr ([] @ taken)"
       "mset taken + mset rest = mset ?sorted"
       "\<forall>t\<in>set taken. \<forall>r\<in>set rest.
          getOrZero ?counts (player_id t) \<le> getOrZero ?counts (player_id r)"
       "rest = [] \<or> \<not> jlt (jnat (length ([] @ taken))) (playersOnCourt st)"
    by blast
  let ?s = "\<lparr>players = taken,
             averageSkillLevel =
               jdiv (foldl (\<lambda>total p. jadd total (skillLevel p)) (Num 0) taken)
                    (jnat (length taken)),
             playingTimeBalance = calculateRotationBalance ?counts taken,
             positionBalance = calculatePositionBalance taken\<rparr>"
  have "generateOptimalLineup ros st history = Inr ?s"
    using r(1) by (simp add: generateOptimalLineup_def generateStrictRotationLineup_def Let_def)
  moreover have "mset (players ?s) + mset rest = mset ?present"
    using r(2) by (simp add: mset_sortBy)
  moreover have "\<forall>t\<in>set (players ?s). \<forall>r\<in>set rest.
          getOrZero ?counts (player_id t) \<le> getOrZero ?counts (player_id r)"
    using r(3) by simp
  moreover have "rest = [] \<or> \<not> jlt (jnat (length (players ?s))) (playersOnCourt st)"
    using r(4) by simp
  ultimately show ?thesis by blast
qed

text \<open>
  C2. No completed lineup of the history repeating a player, the selector
  returns a suggestion in which no present player is left out in favour of a
  present player who has played more periods: a player in the lineup has
  played at most as many completed periods as a present player outside it.
\<close>

theorem strict_rotation_never_skips_less_played:
  assumes "\<forall>per\<in>set history. isCompleted per \<longrightarrow> distinct (map player_id (lineup per))"
  shows "\<exists>s. generateOptimalLineup ros st history = Inr s
           \<and> (\<forall>a\<in>set (filter isPresent ros). \<forall>b\<in>set (filter isPresent ros).
                 b \<in> set (players s) \<and> a \<notin> set (players s)
                 \<longrightarrow> periodsPlayed history b \<le> periodsPlayed history a)"
proof -
  let ?present = "filter isPresent ros"
  let ?counts = "calculatePeriodCounts ?present history"
  from generateOptimalLineup_result [of ros st history] obtain s rest where
    s: "generateOptimalLineup ros st history = Inr s"
       "mset (players s) + mset rest = mset ?present"
       "\<forall>t\<in>set (players s). \<forall>r\<in>set rest.
          getOrZero ?counts (player_id t) \<le> getOrZero ?counts (player_id r)"
    by blast
  have "periodsPlayed history b \<le> periodsPlayed history a"
    if "a \<in> set ?present" "b \<in> set (players s)" "a \<notin> set (players s)" for a b
  proof -
    from that(1) have "a \<in># mset (players s) + mset rest"
      by (simp only: s(2) set_mset_mset)
    with that(3) have "a \<in> set rest" by simp
    with s(3) that(2)
    have "getOrZero ?counts (player_id b) \<le> getOrZero ?counts (player_id a)" by blast
    then show ?thesis
      by (simp only: calculatePeriodCounts_periodsPlayed [OF assms])
  qed
  with s(1) show ?thesis by blast
qed



theorem strict_rotation_never_skips_less_played_witness:
  "map_sum id players (generateOptimalLineup [p1, p2, p3, p4, p5, p6] defaultGameSettings sixHistory)
     = Inr [p1, p2, p3, p4, p6]
   \<and> map (periodsPlayed sixHistory) [p1, p2, p3, p4, p5, p6] = [0, 0, 1, 1, 2, 2]
   \<and> periodsPlayed sixHistory p6 \<le> periodsPlayed sixHistory p5"
proof -
  have h: "\<forall>per\<in>set sixHistory. isCompleted per \<longrightarrow> distinct (map player_id (lineup per))"
    by (simp add: sixHistory_def p3_def p4_def p5_def p6_def mkPlayer_def)
  have run: "map_sum id players
               (generateOptimalLineup [p1, p2, p3, p4, p5, p6] defaultGameSettings sixHistory)
             = Inr [p1, p2, p3, p4, p6]"
    by code_simp
  have counts: "map (periodsPlayed sixHistory) [p1, p2, p3, p4, p5, p6] = [0, 0, 1, 1, 2, 2]"
    by code_simp
  from strict_rotation_never_skips_less_played [OF h, of "[p1, p2, p3, p4, p5, p6]" defaultGameSettings]
  obtain s where s: "generateOptimalLineup [p1, p2, p3, p4, p5, p6] defaultGameSettings sixHistory = Inr s"
    and least: "\<forall>a\<in>set (filter isPresent [p1, p2, p3, p4, p5, p6]).
                \<forall>b\<in>set (filter isPresent [p1, p2, p3, p4, p5, p6]).
                  b \<in> set (players s) \<and> a \<notin> set (players s)
                  \<longrightarrow> periodsPlayed sixHistory b \<le> periodsPlayed sixHistory a"
    by blast
  from run s have chosen: "players s = [p1, p2, p3, p4, p6]" by simp
  have present: "filter isPresent [p1, p2, p3, p4, p5, p6] = [p1, p2, p3, p4, p5, p6]"
    by (simp add: p1_def p2_def p3_def p4_def p5_def p6_def mkPlayer_def)
  have benched: "p5 \<notin> set [p1, p2, p3, p4, p6]"
    by (simp add: p1_def p2_def p3_def p4_def p5_def p6_def mkPlayer_def)
  from least benched have "periodsPlayed sixHistory p6 \<le> periodsPlayed sixHistory p5"
    unfolding present chosen by simp
  with run counts show ?thesis by simp
qed



section \<open>Playing time and completed periods\<close>

lemma jsum_snoc: "jsum (xs @ [d]) = jadd (jsum xs) d"
  by (simp add: jsum_def)

lemma accruedMinutes_Nil: "accruedMinutes [] playerId = Num 0"
  by (simp add: accruedMinutes_def jsum_def)

lemma accruedMinutes_append_open:
  "\<not> isCompleted new \<Longrightarrow> accruedMinutes (history @ [new]) playerId = accruedMinutes history playerId"
  by (simp add: accruedMinutes_def)

lemma accruedMinutes_update_open:
  assumes "k < length history" and "\<not> isCompleted (history ! k)" and "\<not> isCompleted q"
  shows "accruedMinutes (history[k := q]) playerId = accruedMinutes history playerId"
proof -
  have "accruedMinutes (take k history @ q # drop (Suc k) history) playerId
        = accruedMinutes (take k history @ history ! k # drop (Suc k) history) playerId"
    using assms(2,3) by (simp add: accruedMinutes_def)
  then show ?thesis
    using assms(1) by (simp add: upd_conv_take_nth_drop id_take_nth_drop [symmetric])
qed

text \<open>
  Completing the last of the completed periods adds its duration at the end
  of the sum, as the program adds it to the playing time.
\<close>

lemma accruedMinutes_complete:
  assumes "k < length history"
      and "list_all (\<lambda>per. \<not> isCompleted per) (drop k history)"
  shows "accruedMinutes
           (history[k := (history ! k)\<lparr>isCompleted := True, actualDuration := Some d\<rparr>]) playerId
         = (if playerId \<in> player_id ` set (lineup (history ! k))
            then jadd (accruedMinutes history playerId) d
            else accruedMinutes history playerId)"
proof -
  let ?keep = "\<lambda>per. isCompleted per \<and> playerId \<in> player_id ` set (lineup per)"
  let ?before = "map durationOf (filter ?keep (take k history))"
  let ?done = "(history ! k)\<lparr>isCompleted := True, actualDuration := Some d\<rparr>"
  from assms(1) have parts: "drop k history = history ! k # drop (Suc k) history"
    by (simp add: Cons_nth_drop_Suc)
  with assms(2) have open_period: "\<not> isCompleted (history ! k)"
    and later: "\<forall>per\<in>set (drop (Suc k) history). \<not> isCompleted per"
    by (simp_all add: list_all_iff)
  from later have none: "filter ?keep (drop (Suc k) history) = []"
    by (simp add: filter_empty_conv)
  have old: "accruedMinutes history playerId = jsum ?before"
  proof -
    have "accruedMinutes history playerId
          = accruedMinutes (take k history @ history ! k # drop (Suc k) history) playerId"
      using assms(1) by (simp only: id_take_nth_drop [symmetric])
    also have "\<dots> = jsum ?before"
      using open_period none by (simp add: accruedMinutes_def)
    finally show ?thesis .
  qed
  have new: "accruedMinutes (history[k := ?done]) playerId
             = jsum (?before @ (if playerId \<in> player_id ` set (lineup (history ! k))
                                then [d] else []))"
  proof -
    have "history[k := ?done] = take k history @ ?done # drop (Suc k) history"
      using assms(1) by (rule upd_conv_take_nth_drop)
    then show ?thesis
      using none by (simp add: accruedMinutes_def durationOf_def)
  qed
  show ?thesis
    unfolding new old by (simp add: jsum_snoc)
qed

subsection \<open>Each operation on the game keeps the minutes in step\<close>

lemma coherent_roster_update:
  assumes "coherent g" and "i < length (roster g)"
      and "player_id r = player_id (roster g ! i)"
      and "totalPlayingTime r = totalPlayingTime (roster g ! i)"
  shows "coherent (g\<lparr>roster := (roster g)[i := r]\<rparr>)"
proof -
  have ids: "map player_id ((roster g)[i := r]) = map player_id (roster g)"
    using assms(2,3) by (simp add: map_update list_update_same_conv)
  have "totalPlayingTime p = accruedMinutes (periods g) (player_id p)"
    if "p \<in> set ((roster g)[i := r])" for p
  proof -
    from that have "p = r \<or> p \<in> set (roster g)"
      using set_update_subset_insert [of "roster g" i r] by auto
    moreover have "roster g ! i \<in> set (roster g)" using assms(2) by simp
    ultimately show ?thesis
      using assms(1,3,4) by (auto simp: coherent_def timeMatchesPeriods_def list_all_iff)
  qed
  with assms(1) ids show ?thesis
    by (simp add: coherent_def timeMatchesPeriods_def list_all_iff)
qed

lemma coherent_markPlayerPresent:
  assumes "coherent g"
  shows "coherent (markPlayerPresent g playerId present)"
proof (cases "findIndex (\<lambda>p. player_id p = playerId) (roster g)")
  case None
  with assms show ?thesis by (simp add: markPlayerPresent_def)
next
  case (Some i)
  from findIndex_Some [OF Some] have "i < length (roster g)" by simp
  from coherent_roster_update [OF assms this, of "(roster g ! i)\<lparr>isPresent := present\<rparr>"]
  show ?thesis by (simp add: markPlayerPresent_def Some)
qed

lemma coherent_append_open:
  assumes "coherent g" and "\<not> isCompleted new" and "distinct (map player_id (lineup new))"
  shows "coherent (g\<lparr>periods := periods g @ [new]\<rparr>)"
  using assms
  by (simp add: coherent_def timeMatchesPeriods_def accruedMinutes_append_open)

lemma credited_ids:
  "map player_id (map (\<lambda>r. if player_id r \<in> S
                            then r\<lparr>totalPlayingTime := jadd (totalPlayingTime r) d\<rparr>
                            else r) ros)
   = map player_id ros"
  by (induction ros) simp_all

lemma coherent_completePeriod:
  assumes "coherent g"
      and "case findIndex (\<lambda>p. period_id p = periodId) (periods g) of
             None \<Rightarrow> True
           | Some k \<Rightarrow> list_all (\<lambda>per. \<not> isCompleted per) (drop k (periods g))"
  shows "coherent (completePeriod g periodId actual)"
proof (cases "findIndex (\<lambda>p. period_id p = periodId) (periods g)")
  case None
  with assms(1) show ?thesis by (simp add: completePeriod_def)
next
  case (Some k)
  let ?d = "durationOrDefault actual (periodDuration (settings g))"
  let ?per = "periods g ! k"
  let ?history = "(periods g)[k := ?per\<lparr>isCompleted := True, actualDuration := Some ?d\<rparr>]"
  let ?credit = "\<lambda>r. if player_id r \<in> player_id ` set (lineup ?per)
                      then r\<lparr>totalPlayingTime := jadd (totalPlayingTime r) ?d\<rparr> else r"
  from findIndex_Some [OF Some] have k: "k < length (periods g)" by simp
  from assms(2) Some have in_order: "list_all (\<lambda>per. \<not> isCompleted per) (drop k (periods g))"
    by simp
  from assms(1) have ids: "distinct (map player_id (roster g))"
    and lineups: "\<forall>per\<in>set (periods g). distinct (map player_id (lineup per))"
    and times: "\<forall>p\<in>set (roster g). totalPlayingTime p = accruedMinutes (periods g) (player_id p)"
    by (simp_all add: coherent_def timeMatchesPeriods_def list_all_iff)
  from lineups k have lineup_ids: "distinct (map player_id (lineup ?per))" by simp
  have result: "completePeriod g periodId actual
                = g\<lparr>periods := ?history, roster := map ?credit (roster g)\<rparr>"
    by (simp add: completePeriod_def Some Let_def foldl_creditPlayer [OF ids lineup_ids])
  have ids': "distinct (map player_id (map ?credit (roster g)))"
  proof -
    have "map player_id (map ?credit (roster g)) = map player_id (roster g)"
      by (rule credited_ids)
    with ids show ?thesis by (simp only:)
  qed
  have lineups': "\<forall>per\<in>set ?history. distinct (map player_id (lineup per))"
  proof
    fix per assume "per \<in> set ?history"
    then have "per = ?per\<lparr>isCompleted := True, actualDuration := Some ?d\<rparr> \<or> per \<in> set (periods g)"
      using set_update_subset_insert [of "periods g" k] by auto
    with lineups lineup_ids show "distinct (map player_id (lineup per))" by auto
  qed
  have times': "\<forall>p\<in>set (map ?credit (roster g)).
                  totalPlayingTime p = accruedMinutes ?history (player_id p)"
  proof
    fix p assume "p \<in> set (map ?credit (roster g))"
    then obtain r where r: "r \<in> set (roster g)" "p = ?credit r" by auto
    from times r(1) have "totalPlayingTime r = accruedMinutes (periods g) (player_id r)" by simp
    with r(2) show "totalPlayingTime p = accruedMinutes ?history (player_id p)"
      by (simp add: accruedMinutes_complete [OF k in_order])
  qed
  define credited where "credited = map ?credit (roster g)"
  define history' where "history' = ?history"
  from ids' lineups' times' have
    "distinct (map player_id credited)"
    "\<forall>per\<in>set history'. distinct (map player_id (lineup per))"
    "\<forall>p\<in>set credited. totalPlayingTime p = accruedMinutes history' (player_id p)"
    unfolding credited_def history'_def by blast+
  then have "coherent (g\<lparr>periods := history', roster := credited\<rparr>)"
    by (simp add: coherent_def timeMatchesPeriods_def list_all_iff)
  then show ?thesis
    unfolding result credited_def history'_def .
qed

lemma swapPlayers_effect:
  "snd (swapPlayers g periodId playerOutId playerInId) = g
   \<or> (\<exists>k i r. k < length (periods g) \<and> \<not> isCompleted (periods g ! k)
         \<and> player_id r = playerInId
         \<and> playerInId \<notin> player_id ` set (lineup (periods g ! k))
         \<and> snd (swapPlayers g periodId playerOutId playerInId)
             = g\<lparr>periods := (periods g)
                  [k := (periods g ! k)\<lparr>lineup := (lineup (periods g ! k))[i := r]\<rparr>]\<rparr>)"
proof (cases "snd (swapPlayers g periodId playerOutId playerInId) = g")
  case True
  then show ?thesis ..
next
  case False
  then obtain k where k: "findIndex (\<lambda>p. period_id p = periodId) (periods g) = Some k"
    by (cases "findIndex (\<lambda>p. period_id p = periodId) (periods g)")
       (auto simp: swapPlayers_def)
  from False k have open_period: "\<not> isCompleted (periods g ! k)"
    by (auto simp: swapPlayers_def)
  from False k open_period obtain i where
    i: "findIndex (\<lambda>p. player_id p = playerOutId) (lineup (periods g ! k)) = Some i"
    by (cases "findIndex (\<lambda>p. player_id p = playerOutId) (lineup (periods g ! k))")
       (auto simp: swapPlayers_def)
  from False k open_period i obtain r where
    r: "find (\<lambda>p. player_id p = playerInId \<and> isPresent p) (roster g) = Some r"
    by (cases "find (\<lambda>p. player_id p = playerInId \<and> isPresent p) (roster g)")
       (auto simp: swapPlayers_def)
  from False k open_period i r have
    fresh: "\<not> list_ex (\<lambda>p. player_id p = playerInId) (lineup (periods g ! k))"
    by (auto simp: swapPlayers_def)
  have "snd (swapPlayers g periodId playerOutId playerInId)
        = g\<lparr>periods := (periods g)
             [k := (periods g ! k)\<lparr>lineup := (lineup (periods g ! k))[i := r]\<rparr>]\<rparr>"
    using k open_period i r fresh by (simp add: swapPlayers_def Let_def)
  moreover from findIndex_Some [OF k] have "k < length (periods g)" by simp
  moreover from find_Some_holds [OF r] have "player_id r = playerInId" by simp
  moreover from fresh have "playerInId \<notin> player_id ` set (lineup (periods g ! k))"
    by (auto simp: list_ex_iff)
  ultimately show ?thesis using open_period by blast
qed

lemma distinct_map_update:
  assumes "distinct (map f xs)" and "f y \<notin> f ` set xs"
  shows "distinct (map f (xs[i := y]))"
proof -
  have "distinct ((map f xs)[i := f y])"
    using assms by (intro distinct_list_update) auto
  then show ?thesis by (simp add: map_update)
qed

lemma coherent_swapPlayers:
  assumes "coherent g"
  shows "coherent (snd (swapPlayers g periodId playerOutId playerInId))"
proof -
  from swapPlayers_effect [of g periodId playerOutId playerInId]
  consider "snd (swapPlayers g periodId playerOutId playerInId) = g"
    | k i r where "k < length (periods g)" "\<not> isCompleted (periods g ! k)"
        "player_id r = playerInId"
        "playerInId \<notin> player_id ` set (lineup (periods g ! k))"
        "snd (swapPlayers g periodId playerOutId playerInId)
           = g\<lparr>periods := (periods g)
                [k := (periods g ! k)\<lparr>lineup := (lineup (periods g ! k))[i := r]\<rparr>]\<rparr>"
    by blast
  then show ?thesis
  proof cases
    case 1
    with assms show ?thesis by simp
  next
    case (2 k i r)
    let ?per = "periods g ! k"
    let ?swapped = "?per\<lparr>lineup := (lineup ?per)[i := r]\<rparr>"
    from assms have ids: "distinct (map player_id (roster g))"
      and lineups: "\<forall>per\<in>set (periods g). distinct (map player_id (lineup per))"
      and times: "\<forall>p\<in>set (roster g). totalPlayingTime p = accruedMinutes (periods g) (player_id p)"
      by (simp_all add: coherent_def timeMatchesPeriods_def list_all_iff)
    from lineups 2(1) have "distinct (map player_id (lineup ?per))" by simp
    with 2(3,4) have new_ids: "distinct (map player_id (lineup ?swapped))"
      by (simp add: distinct_map_update)
    have lineups': "\<forall>per\<in>set ((periods g)[k := ?swapped]). distinct (map player_id (lineup per))"
    proof
      fix per assume "per \<in> set ((periods g)[k := ?swapped])"
      then have "per = ?swapped \<or> per \<in> set (periods g)"
        using set_update_subset_insert [of "periods g" k] by auto
      with lineups new_ids show "distinct (map player_id (lineup per))" by auto
    qed
    have same: "accruedMinutes ((periods g)[k := ?swapped]) playerId
                = accruedMinutes (periods g) playerId" for playerId
      using 2(1,2) by (intro accruedMinutes_update_open) simp_all
    from ids lineups' times show ?thesis
      unfolding 2(5) by (simp add: coherent_def timeMatchesPeriods_def list_all_iff same)
  qed
qed

lemma coherent_updateGameSettings:
  "coherent g \<Longrightarrow> coherent (updateGameSettings g newSettings)"
  by (simp add: coherent_def timeMatchesPeriods_def updateGameSettings_def)

subsection \<open>Each operation on the coordinator keeps the lineups apart\<close>

lemma shareLineup_unshared:
  assumes "distinct addresses" and "length addresses = length history" and "k < length history"
  shows "shareLineup addresses k history = history"
proof (rule nth_equalityI)
  show "length (shareLineup addresses k history) = length history"
    using assms(2) by (simp add: shareLineup_def)
next
  fix j assume "j < length (shareLineup addresses k history)"
  then have j: "j < length history" using assms(2) by (simp add: shareLineup_def)
  have "addresses ! j = addresses ! k \<longleftrightarrow> j = k"
    using assms j by (simp add: nth_eq_iff_index_eq)
  then show "shareLineup addresses k history ! j = history ! j"
    using j assms(2) by (auto simp: shareLineup_def)
qed

lemma swapPlayers_length:
  "length (periods (snd (swapPlayers g periodId playerOutId playerInId))) = length (periods g)"
  using swapPlayers_effect [of g periodId playerOutId playerInId] by auto

lemma unshared_swapPlayersInPlace:
  assumes "unshared c"
  shows "unshared (snd (swapPlayersInPlace c periodId playerOutId playerInId))"
proof -
  let ?swapped = "swapPlayers (game c) periodId playerOutId playerInId"
  from assms have coh: "coherent (game c)"
    and len: "length (lineupArrays c) = length (periods (game c))"
    and apart: "distinct (lineupArrays c)"
    by (simp_all add: unshared_def)
  have len': "length (lineupArrays c) = length (periods (snd ?swapped))"
    using len by (simp only: swapPlayers_length)
  have same: "snd (swapPlayersInPlace c periodId playerOutId playerInId) = c\<lparr>game := snd ?swapped\<rparr>"
  proof (cases "findIndex (\<lambda>p. period_id p = periodId) (periods (game c))")
    case None
    then show ?thesis by (simp add: swapPlayersInPlace_def Let_def)
  next
    case (Some k)
    from findIndex_Some [OF Some] have "k < length (periods (snd ?swapped))"
      by (simp only: swapPlayers_length)
    from shareLineup_unshared [OF apart len' this]
    show ?thesis by (simp add: swapPlayersInPlace_def Let_def Some)
  qed
  from coherent_swapPlayers [OF coh] len' apart show ?thesis
    unfolding same by (simp add: unshared_def)
qed

lemma unshared_createPeriod:
  assumes "unshared c" and "playersAddress \<notin> set (lineupArrays c)"
      and "distinct (map player_id (players suggestion))"
  shows "unshared (handleStartPeriod c (createPeriodFromSuggestion c playersAddress suggestion))"
proof -
  let ?new = "fst (createPeriodFromSuggestion c playersAddress suggestion)"
  from assms(2) have "findIndex (\<lambda>a. a = playersAddress) (lineupArrays c) = None"
    by (auto simp: findIndex_None)
  then have own: "arrayContent c playersAddress (players suggestion) = players suggestion"
    by (simp add: arrayContent_def)
  have "\<not> isCompleted ?new" and "lineup ?new = players suggestion"
    by (simp_all add: createPeriodFromSuggestion_def Let_def own)
  with assms(1,3) have "coherent ((game c)\<lparr>periods := periods (game c) @ [?new]\<rparr>)"
    by (intro coherent_append_open) (simp_all add: unshared_def)
  with assms(1,2) show ?thesis
    by (simp add: unshared_def handleStartPeriod_def createPeriodFromSuggestion_def Let_def)
qed

lemma periods_markPlayerPresent:
  "periods (markPlayerPresent g playerId present) = periods g"
  by (simp add: markPlayerPresent_def split: option.splits)

lemma periods_completePeriod:
  "length (periods (completePeriod g periodId actual)) = length (periods g)"
  by (simp add: completePeriod_def Let_def split: option.splits)

lemma unshared_applyOperation:
  assumes "unshared c" and "inStep c operation"
  shows "unshared (applyOperation c operation)"
proof (cases operation)
  case (MarkPlayerPresent playerId present)
  with assms(1) show ?thesis
    by (simp add: unshared_def coherent_markPlayerPresent periods_markPlayerPresent)
next
  case (AddLatePlayer playerId)
  with assms have "addLatePlayer (game c) playerId = markPlayerPresent (game c) playerId True"
    by (simp add: addLatePlayer_def markPlayerPresent_def calculateCatchUpTime_def
        split: option.splits)
  with AddLatePlayer assms(1) show ?thesis
    by (simp add: unshared_def coherent_markPlayerPresent periods_markPlayerPresent)
next
  case (CreatePeriodFromSuggestion playersAddress suggestion)
  with assms show ?thesis by (simp add: unshared_createPeriod)
next
  case (CompletePeriod periodId actual)
  with assms show ?thesis
    by (simp add: unshared_def coherent_completePeriod periods_completePeriod)
next
  case (SwapPlayers periodId playerOutId playerInId)
  with assms(1) show ?thesis by (simp add: unshared_swapPlayersInPlace)
next
  case (UpdateGameSettings newSettings)
  with assms(1) show ?thesis
    by (simp add: unshared_def coherent_updateGameSettings) (simp add: updateGameSettings_def)
qed

lemma unshared_runOperations:
  "unshared c \<Longrightarrow> allInStep c ops \<Longrightarrow> unshared (runOperations c ops)"
proof (induction ops arbitrary: c)
  case Nil
  then show ?case by (simp add: runOperations_def)
next
  case (Cons operation ops)
  from Cons.prems have "unshared (applyOperation c operation)"
    by (simp add: unshared_applyOperation)
  moreover from Cons.prems have "allInStep (applyOperation c operation) ops" by simp
  ultimately have "unshared (runOperations (applyOperation c operation) ops)"
    by (rule Cons.IH)
  then show ?case by (simp add: runOperations_def)
qed

text \<open>
  C5. From an initial game whose roster has no id twice, every sequence of
  coordinator operations in which a late player is added only before the
  first completed period, every committed suggestion is free of repeated
  players and has a \<^verbatim>\<open>players\<close> array that is not yet the lineup of a period, and
  every completed period is completed once and before the periods after it,
  leads to a game where the playing time of every roster player is the sum of
  \<^verbatim>\<open>actualDuration\<close> over the completed periods whose lineup contains the player,
  taken in the order of the periods.
\<close>

theorem playing_time_is_sum_of_completed_periods:
  assumes "initialGame c"
      and "distinct (map player_id (roster (game c)))"
      and "allInStep c ops"
  shows "\<forall>p\<in>set (roster (game (runOperations c ops))).
           totalPlayingTime p
           = accruedMinutes (periods (game (runOperations c ops))) (player_id p)"
proof -
  from assms(1,2) have "unshared c"
    by (simp add: unshared_def coherent_def initialGame_def timeMatchesPeriods_def
        accruedMinutes_Nil)
  from unshared_runOperations [OF this assms(3)] show ?thesis
    by (simp add: unshared_def coherent_def timeMatchesPeriods_def list_all_iff)
qed

theorem playing_time_is_sum_of_completed_periods_witness:
  "initialGame lateStart
   \<and> distinct (map player_id (roster (game lateStart)))
   \<and> allInStep lateStart eveningGame
   \<and> map totalPlayingTime (roster (game (runOperations lateStart eveningGame)))
       = map (\<lambda>p. accruedMinutes (periods (game (runOperations lateStart eveningGame)))
                   (player_id p))
           (roster (game (runOperations lateStart eveningGame)))
   \<and> map totalPlayingTime (roster (game (runOperations lateStart eveningGame)))
       = [Num 6, Num 9]"
proof -
  have h1: "initialGame lateStart" by code_simp
  have h2: "distinct (map player_id (roster (game lateStart)))" by code_simp
  have h3: "allInStep lateStart eveningGame" by code_simp
  from playing_time_is_sum_of_completed_periods [OF h1 h2 h3]
  have "map totalPlayingTime (roster (game (runOperations lateStart eveningGame)))
       = map (\<lambda>p. accruedMinutes (periods (game (runOperations lateStart eveningGame)))
                   (player_id p))
           (roster (game (runOperations lateStart eveningGame)))"
    by (intro map_cong [OF refl]) blast
  moreover have "map totalPlayingTime (roster (game (runOperations lateStart eveningGame)))
                 = [Num 6, Num 9]"
    by code_simp
  ultimately show ?thesis using h1 h2 h3 by blast
qed

text \<open>
  A late player gets a credit that no period accounts for. One present
  player, the period the generator suggests for him, completed with the
  default duration, and then the second player arrives: he is credited with
  \<open>0.7 * (4 * 5 / 2) * 1 = 7\<close> minutes and has been in no lineup.
\<close>

theorem late_player_credit_is_in_no_period:
  "initialGame lateStart
   \<and> generateNextLineup (game lateStart) = Inr alexAlone
   \<and> map totalPlayingTime (roster (game (runOperations lateStart lateArrival)))
       = [Num 4, Num 7]
   \<and> map (\<lambda>p. accruedMinutes (periods (game (runOperations lateStart lateArrival)))
                (player_id p))
         (roster (game (runOperations lateStart lateArrival))) = [Num 4, Num 0]
   \<and> \<not> timeMatchesPeriods (game (runOperations lateStart lateArrival))"
  by code_simp

text \<open>
  Why a suggestion must not be committed twice. The two periods then have one
  lineup array; the swap in the open second period puts the second player
  into the lineup of the completed first one, which the first player has
  played and been credited for. The minutes stay at 4 and 0, and the periods
  now account for 0 and 4.
\<close>

lemma committed_twice_rewrites_completed_lineup:
  "lineupArrays (runOperations bothPresent committedTwice) = [1, 1]
   \<and> map (\<lambda>per. map player_id (lineup per))
         (periods (game (runOperations bothPresent committedTwice))) = [[''2''], [''2'']]
   \<and> map totalPlayingTime (roster (game (runOperations bothPresent committedTwice)))
       = [Num 4, Num 0]
   \<and> map (\<lambda>p. accruedMinutes (periods (game (runOperations bothPresent committedTwice)))
                (player_id p))
         (roster (game (runOperations bothPresent committedTwice))) = [Num 0, Num 4]
   \<and> \<not> allInStep bothPresent committedTwice"
  by code_simp

end
